theory Spec2Isabelle
  imports Complex_Main "HOL-Library.Multiset" "HOL-Library.Word"
begin

section \<open>The construct-boundary engine of benchaid (cmd/construct\_boundary/main.go)\<close>

text \<open>
  Conventions of the embedding.
  \<^item> Go's \<open>int\<close> is modelled by \<open>int\<close>, for values inside the 64-bit range. Loop
    indices below a slice length and \<open>end - start + 1\<close> behind the guard
    \<open>0 < start \<le> end\<close> stay inside that range; the differences of positions that the
    scorer passes to \<open>abs\<close> need not, and there the wrap-around is written out.
  \<^item> Go's \<open>float64\<close> is modelled by \<open>rat\<close>: the per-residue confidence values are
    finite numbers, comparison with a constant is exact on them, and the score arithmetic
    only adds the integer weights of the table and halves one sum, all of which binary
    floating point represents exactly. The sum and the quotient of avgWindow are exact
    here, where binary floating point rounds each addition and the division: for a window
    whose exact mean is within a rounding error of 70 the comparison in the code can come
    out differently. The statements about the scores hold whatever the triggers answer,
    and the confidence array on which isLoopRegion is evaluated has sums and compared
    quotients that binary floating point represents exactly.
  \<^item> A Go slice is a list; an index is a \<open>nat\<close>, a 1-based residue position an \<open>int\<close>.
  \<^item> A run-time panic is a value of type \<open>panic\<close>.
\<close>

subsection \<open>Data model\<close>

datatype panic = MakesliceLenOutOfRange

record rangeInfo =
  ri_Start :: int
  ri_End :: int
  ri_Name :: string
  ri_Type :: string
  ri_Source :: string

record pdbRange =
  pdb_ID :: string
  pdb_Start :: int
  pdb_End :: int
  pdb_Method :: string
  pdb_Resolution :: string

subsection \<open>Disorder computer\<close>

text \<open>\<open>make([]bool, length)\<close>: a zeroed slice, or a panic when the length is negative.\<close>

definition make_bools :: "int \<Rightarrow> panic + bool list" where
  "make_bools n = (if n < 0 then Inl MakesliceLenOutOfRange else Inr (replicate (nat n) False))"

text \<open>
  The loop \<open>for i := 0; i < length && i < len(plddt); i++\<close> of computeDisorderedRegions,
  started at \<open>i\<close> with the slice \<open>disorder\<close> built so far.
\<close>

function disorderLoop :: "rat list \<Rightarrow> nat \<Rightarrow> nat \<Rightarrow> bool list \<Rightarrow> bool list" where
  "disorderLoop plddt len i disorder =
     (if i < len \<and> i < length plddt
      then disorderLoop plddt len (Suc i) (if plddt ! i < 50 then disorder[i := True] else disorder)
      else disorder)"
  by pat_completeness auto
termination
  by (relation "measure (\<lambda>(plddt, len, i, disorder). len - i)") auto

declare disorderLoop.simps [simp del]

definition computeDisorderedRegions :: "rat list \<Rightarrow> int \<Rightarrow> panic + bool list" where
  "computeDisorderedRegions plddt len =
     (if length plddt = 0 \<or> len = 0 then make_bools len
      else case make_bools len of
             Inl p \<Rightarrow> Inl p
           | Inr disorder \<Rightarrow> Inr (disorderLoop plddt (nat len) 0 disorder))"

text \<open>
  compressDisorder: the body of \<open>for i, flag := range disorder\<close>, with the loop variables
  \<open>start\<close> and \<open>regions\<close> passed along. The two \<open>if\<close> statements run one after the
  other, the second one reading the \<open>start\<close> the first one may have set.
\<close>

definition disorderRange :: "int \<Rightarrow> int \<Rightarrow> rangeInfo" where
  "disorderRange s e =
     \<lparr>ri_Start = s, ri_End = e, ri_Name = [], ri_Type = ''disorder'', ri_Source = ''pLDDT''\<rparr>"

fun compressLoop :: "bool list \<Rightarrow> nat \<Rightarrow> int \<Rightarrow> rangeInfo list \<Rightarrow> int \<times> rangeInfo list" where
  "compressLoop [] i start regions = (start, regions)"
| "compressLoop (flag # rest) i start regions =
     (let start1 = (if flag \<and> start = 0 then int i + 1 else start)
      in if \<not> flag \<and> start1 \<noteq> 0
         then compressLoop rest (Suc i) 0 (regions @ [disorderRange start1 (int i)])
         else compressLoop rest (Suc i) start1 regions)"

definition compressDisorder :: "bool list \<Rightarrow> rangeInfo list" where
  "compressDisorder disorder =
     (case compressLoop disorder 0 0 [] of
        (start, regions) \<Rightarrow>
          if start \<noteq> 0 then regions @ [disorderRange start (int (length disorder))] else regions)"

text \<open>orderedRanges: the same loop with the tests on \<open>flag\<close> exchanged.\<close>

definition orderedRange :: "int \<Rightarrow> int \<Rightarrow> rangeInfo" where
  "orderedRange s e =
     \<lparr>ri_Start = s, ri_End = e, ri_Name = [], ri_Type = ''ordered'', ri_Source = ''pLDDT''\<rparr>"

fun orderedLoop :: "bool list \<Rightarrow> nat \<Rightarrow> int \<Rightarrow> rangeInfo list \<Rightarrow> int \<times> rangeInfo list" where
  "orderedLoop [] i start ranges = (start, ranges)"
| "orderedLoop (flag # rest) i start ranges =
     (let start1 = (if \<not> flag \<and> start = 0 then int i + 1 else start)
      in if flag \<and> start1 \<noteq> 0
         then orderedLoop rest (Suc i) 0 (ranges @ [orderedRange start1 (int i)])
         else orderedLoop rest (Suc i) start1 ranges)"

definition orderedRanges :: "bool list \<Rightarrow> rangeInfo list" where
  "orderedRanges disordered =
     (case orderedLoop disordered 0 0 [] of
        (start, ranges) \<Rightarrow>
          if start \<noteq> 0 then ranges @ [orderedRange start (int (length disordered))] else ranges)"

text \<open>
  Notions used to state the partition property: a range covers the positions from its
  start to its end, both included; \<open>coverCount p rs\<close> is the number of ranges of \<open>rs\<close>
  that cover position \<open>p\<close>.
\<close>

definition covers :: "int \<Rightarrow> rangeInfo \<Rightarrow> bool" where
  "covers p r = (ri_Start r \<le> p \<and> p \<le> ri_End r)"

definition coverCount :: "int \<Rightarrow> rangeInfo list \<Rightarrow> nat" where
  "coverCount p rs = length (filter (covers p) rs)"

text \<open>
  Auxiliary notions of the proofs: the 1-based positions of the true entries of a mask whose
  first entry has index \<open>i\<close>; the range a loop still has to emit when it ends with a run
  open; a range that lies inside \<open>[1, n]\<close> and is not empty.
\<close>

definition truePos :: "nat \<Rightarrow> bool list \<Rightarrow> int set" where
  "truePos i xs = {p. int i < p \<and> p \<le> int i + int (length xs) \<and> xs ! nat (p - int i - 1)}"

definition compressFlush :: "nat \<Rightarrow> int \<times> rangeInfo list \<Rightarrow> rangeInfo list" where
  "compressFlush n sr = (case sr of (start, regions) \<Rightarrow>
      if start \<noteq> 0 then regions @ [disorderRange start (int n)] else regions)"

definition orderedFlush :: "nat \<Rightarrow> int \<times> rangeInfo list \<Rightarrow> rangeInfo list" where
  "orderedFlush n sr = (case sr of (start, ranges) \<Rightarrow>
      if start \<noteq> 0 then ranges @ [orderedRange start (int n)] else ranges)"

definition wellRange :: "nat \<Rightarrow> rangeInfo \<Rightarrow> bool" where
  "wellRange n r = (1 \<le> ri_Start r \<and> ri_Start r \<le> ri_End r \<and> ri_End r \<le> int n)"

subsection \<open>Small helpers of the source\<close>

definition max_int :: "int \<Rightarrow> int \<Rightarrow> int" where
  "max_int a b = (if a > b then a else b)"

definition min_int :: "int \<Rightarrow> int \<Rightarrow> int" where
  "min_int a b = (if a < b then a else b)"

text \<open>
  The value a 64-bit \<open>int\<close> holds after an operation whose exact result is \<open>x\<close>. The
  helper \<open>abs\<close> negates a negative value, and its callers pass it a difference of two
  positions; both operations wrap, so the least value stays negative under \<open>abs\<close>.
\<close>

definition wrap64 :: "int \<Rightarrow> int" where
  "wrap64 x = (x + 2 ^ 63) mod 2 ^ 64 - 2 ^ 63"

definition sub64 :: "int \<Rightarrow> int \<Rightarrow> int" where
  "sub64 a b = wrap64 (a - b)"

definition abs_int :: "int \<Rightarrow> int" where
  "abs_int v = (if v < 0 then wrap64 (- v) else v)"

definition clamp :: "rat \<Rightarrow> rat \<Rightarrow> rat \<Rightarrow> rat" where
  "clamp v minValue maxValue =
     (if v < minValue then minValue else if v > maxValue then maxValue else v)"

text \<open>
  \<open>fmt.Sprintf("%d", n)\<close>: the decimal digits of an integer, with a minus sign in front of
  a negative one.
\<close>

fun formatNat :: "nat \<Rightarrow> string" where
  "formatNat n =
     (if n < 10 then [char_of (48 + n)] else formatNat (n div 10) @ [char_of (48 + n mod 10)])"

declare formatNat.simps [simp del]

definition formatInt :: "int \<Rightarrow> string" where
  "formatInt n = (if n < 0 then CHR ''-'' # formatNat (nat (- n)) else formatNat (nat n))"

text \<open>\<open>strings.HasPrefix\<close> and \<open>strings.Contains\<close> on byte strings.\<close>

definition strings_HasPrefix :: "string \<Rightarrow> string \<Rightarrow> bool" where
  "strings_HasPrefix s pre = (take (length pre) s = pre)"

fun strings_Contains :: "string \<Rightarrow> string \<Rightarrow> bool" where
  "strings_Contains [] substr = (substr = [])"
| "strings_Contains (c # cs) substr =
     (strings_HasPrefix (c # cs) substr \<or> strings_Contains cs substr)"

subsection \<open>Candidates\<close>

record evidence =
  ev_PDBMatch :: string
  ev_Domain :: string
  ev_AvgPLDDT :: rat
  ev_DisorderFraction :: rat

record candidate =
  c_Start :: int
  c_End :: int
  c_Source :: string
  c_Name :: string
  c_PDBID :: string
  c_Score :: rat
  c_Rationale :: "string list"
  c_Evidence :: evidence

text \<open>The method \<open>func (c candidate) Length() int\<close>.\<close>

definition candidate_Length :: "candidate \<Rightarrow> int" where
  "candidate_Length c = c_End c - c_Start c + 1"

record boundaryContext =
  ctx_Length :: int
  ctx_Disorder :: "bool list"
  ctx_PLDDT :: "rat list"
  ctx_DomainRanges :: "rangeInfo list"
  ctx_PDBRanges :: "pdbRange list"
  ctx_HelixRanges :: "rangeInfo list"
  ctx_StrandRanges :: "rangeInfo list"
  ctx_ActiveSites :: "rangeInfo list"
  ctx_PTMPositions :: "int list"

text \<open>The zero value of the struct \<open>evidence\<close>, which a new candidate carries.\<close>

definition evidence_zero :: evidence where
  "evidence_zero = \<lparr>ev_PDBMatch = [], ev_Domain = [], ev_AvgPLDDT = 0, ev_DisorderFraction = 0\<rparr>"

subsection \<open>Candidate generator\<close>

text \<open>
  The map \<open>seen\<close> of buildCandidates, a \<open>map[string]bool\<close>: reading a key that was never
  written gives false.
\<close>

type_synonym seenMap = "string \<rightharpoonup> bool"

definition seen_get :: "seenMap \<Rightarrow> string \<Rightarrow> bool" where
  "seen_get seen key = (case seen key of None \<Rightarrow> False | Some b \<Rightarrow> b)"

definition candidateKey :: "int \<Rightarrow> int \<Rightarrow> string" where
  "candidateKey start end = formatInt start @ ''-'' @ formatInt end"

text \<open>
  The closure \<open>addCandidate\<close> of buildCandidates. It reads \<open>minLength\<close> and \<open>maxLength\<close>
  and updates the captured variables \<open>candidates\<close> and \<open>seen\<close>, which are passed in and
  returned here.
\<close>

definition addCandidate ::
  "int \<Rightarrow> int \<Rightarrow> candidate list \<times> seenMap \<Rightarrow> int \<Rightarrow> int \<Rightarrow> string \<Rightarrow> string \<Rightarrow> string \<Rightarrow>
     candidate list \<times> seenMap" where
  "addCandidate minLength maxLength st start end source name pdbID =
     (case st of (candidates, seen) \<Rightarrow>
        if start \<le> 0 \<or> end \<le> 0 \<or> start > end then st
        else let len = end - start + 1 in
          if len < minLength then st
          else if maxLength > 0 \<and> len > maxLength then st
          else let key = candidateKey start end in
            if seen_get seen key then st
            else (candidates @
                    [\<lparr>c_Start = start, c_End = end, c_Source = source, c_Name = name,
                      c_PDBID = pdbID, c_Score = 0, c_Rationale = [], c_Evidence = evidence_zero\<rparr>],
                  seen(key \<mapsto> True)))"

text \<open>
  buildCandidates. \<open>strings.ToLower\<close> of the standard library is the parameter \<open>toLower\<close>;
  the region is \<open>None\<close> for the nil pointer. The parameter \<open>sequence\<close> is not read by the
  source either.
\<close>

definition buildCandidates ::
  "(string \<Rightarrow> string) \<Rightarrow> string \<Rightarrow> rangeInfo option \<Rightarrow> string \<Rightarrow> rangeInfo list \<Rightarrow>
     pdbRange list \<Rightarrow> bool list \<Rightarrow> int \<Rightarrow> int \<Rightarrow> candidate list" where
  "buildCandidates toLower sequence regionRange regionName domains pdbRanges disordered
       minLength maxLength =
     (let st0 = ([], Map.empty);
          st1 = (case regionRange of
                   None \<Rightarrow> st0
                 | Some r \<Rightarrow> addCandidate minLength maxLength st0 (ri_Start r) (ri_End r)
                               ''user'' ''user_region'' []);
          st2 = foldl (\<lambda>st domain.
                   if regionName \<noteq> [] \<and>
                      \<not> strings_Contains (toLower (ri_Name domain)) (toLower regionName)
                   then st
                   else addCandidate minLength maxLength st (ri_Start domain) (ri_End domain)
                          ''domain'' (ri_Name domain) []) st1 domains;
          st3 = foldl (\<lambda>st pdb.
                   addCandidate minLength maxLength st (pdb_Start pdb) (pdb_End pdb)
                     ''pdb'' (pdb_ID pdb) (pdb_ID pdb)) st2 pdbRanges;
          st4 = (if regionRange = None \<and> regionName = []
                 then foldl (\<lambda>st seg.
                        addCandidate minLength maxLength st (ri_Start seg) (ri_End seg)
                          ''ordered'' ''ordered_segment'' []) st3 (orderedRanges disordered)
                 else st3)
      in fst st4)"

text \<open>
  The invariant of the pair of captured variables: every candidate passed the filters, no
  two candidates have the same start and end, and the key of every candidate is marked in
  \<open>seen\<close>.
\<close>

definition candidateOk :: "int \<Rightarrow> int \<Rightarrow> candidate \<Rightarrow> bool" where
  "candidateOk minLength maxLength c =
     (1 \<le> c_Start c \<and> c_Start c \<le> c_End c \<and> minLength \<le> c_End c - c_Start c + 1 \<and>
      (maxLength > 0 \<longrightarrow> c_End c - c_Start c + 1 \<le> maxLength))"

definition startEnd :: "candidate \<Rightarrow> int \<times> int" where
  "startEnd c = (c_Start c, c_End c)"

definition candidatesInv :: "int \<Rightarrow> int \<Rightarrow> candidate list \<times> seenMap \<Rightarrow> bool" where
  "candidatesInv minLength maxLength st =
     ((\<forall>c \<in> set (fst st). candidateOk minLength maxLength c) \<and>
      distinct (map startEnd (fst st)) \<and>
      (\<forall>c \<in> set (fst st). seen_get (snd st) (candidateKey (c_Start c) (c_End c))))"

subsection \<open>Boundary scorer\<close>

definition isDisorderTransition :: "int \<Rightarrow> string \<Rightarrow> bool list \<Rightarrow> bool" where
  "isDisorderTransition pos side disorder =
     (if length disorder = 0 \<or> pos \<le> 0 \<or> pos > int (length disorder) then False
      else let idx = nat (pos - 1) in
        if side = ''start''
        then (if disorder ! idx then False
              else if idx = 0 then True
              else disorder ! (idx - 1))
        else (if disorder ! idx then False
              else if idx = length disorder - 1 then True
              else disorder ! (idx + 1)))"

fun isDomainBoundary :: "int \<Rightarrow> rangeInfo list \<Rightarrow> bool" where
  "isDomainBoundary pos [] = False"
| "isDomainBoundary pos (domain # rest) =
     (if abs_int (sub64 pos (ri_Start domain)) \<le> 3 \<or> abs_int (sub64 pos (ri_End domain)) \<le> 3 then True
      else isDomainBoundary pos rest)"

fun matchesPDBBoundary :: "int \<Rightarrow> pdbRange list \<Rightarrow> bool" where
  "matchesPDBBoundary pos [] = False"
| "matchesPDBBoundary pos (pdb # rest) =
     (if abs_int (sub64 pos (pdb_Start pdb)) \<le> 3 \<or> abs_int (sub64 pos (pdb_End pdb)) \<le> 3 then True
      else matchesPDBBoundary pos rest)"

text \<open>
  avgWindow: the loop \<open>for i := start; i <= end; i++\<close> adds \<open>values[i]\<close> to the variable \<open>sum\<close>
  (here \<open>acc\<close>) and counts in \<open>cnt\<close>. It runs only after \<open>start\<close> and \<open>end\<close> were clipped to valid indices.
\<close>

function avgLoop :: "rat list \<Rightarrow> int \<Rightarrow> int \<Rightarrow> rat \<Rightarrow> int \<Rightarrow> rat \<times> int" where
  "avgLoop values i end acc cnt =
     (if i \<le> end then avgLoop values (i + 1) end (acc + values ! nat i) (cnt + 1)
      else (acc, cnt))"
  by pat_completeness auto
termination
  by (relation "measure (\<lambda>(values, i, end, acc, cnt). nat (end + 1 - i))") auto

declare avgLoop.simps [simp del]

definition avgWindow :: "rat list \<Rightarrow> int \<Rightarrow> int \<Rightarrow> rat" where
  "avgWindow values start end =
     (if length values = 0 \<or> start > end then 0
      else let start1 = max_int 0 start;
               end1 = min_int (int (length values) - 1) end
           in if start1 > end1 then 0
              else case avgLoop values start1 end1 0 0 of
                     (acc, cnt) \<Rightarrow> if cnt = 0 then 0 else acc / of_int cnt)"

definition isLoopRegion :: "int \<Rightarrow> rat list \<Rightarrow> bool" where
  "isLoopRegion pos plddt =
     (if length plddt = 0 \<or> pos \<le> 2 \<or> pos \<ge> int (length plddt) - 2 then False
      else let center = avgWindow plddt (pos - 2) (pos + 2);
               left = avgWindow plddt (max_int 0 (pos - 8)) (pos - 3);
               right = avgWindow plddt (pos + 3) (min_int (int (length plddt) - 1) (pos + 8))
           in center < 70 \<and> left > 70 \<and> right > 70)"

definition hasStructuredSide :: "int \<Rightarrow> string \<Rightarrow> rat list \<Rightarrow> bool" where
  "hasStructuredSide pos side plddt =
     (if length plddt = 0 then False
      else if side = ''start''
      then avgWindow plddt (pos - 1) (min_int (int (length plddt) - 1) (pos + 8)) > 70
      else avgWindow plddt (max_int 0 (pos - 10)) (pos - 1) > 70)"

fun withinRanges :: "int \<Rightarrow> rangeInfo list \<Rightarrow> bool" where
  "withinRanges pos [] = False"
| "withinRanges pos (r # rest) =
     (if pos \<ge> ri_Start r \<and> pos \<le> ri_End r then True else withinRanges pos rest)"

fun withinPositions :: "int \<Rightarrow> int list \<Rightarrow> int \<Rightarrow> bool" where
  "withinPositions pos [] buffer = False"
| "withinPositions pos (p # rest) buffer =
     (if abs_int (sub64 pos p) \<le> buffer then True else withinPositions pos rest buffer)"

text \<open>
  One step of boundaryScore, \<open>if cond { score += delta; rationale = append(rationale, text) }\<close>,
  on the pair of the local variables \<open>score\<close> and \<open>rationale\<close>.
\<close>

definition scoreTerm :: "bool \<Rightarrow> rat \<Rightarrow> string \<Rightarrow> rat \<times> string list \<Rightarrow> rat \<times> string list" where
  "scoreTerm cond delta text sr =
     (if cond then (fst sr + delta, snd sr @ [text]) else sr)"

definition boundaryScore :: "int \<Rightarrow> string \<Rightarrow> boundaryContext \<Rightarrow> rat \<times> string list" where
  "boundaryScore pos side ctx =
     (let s0 = (0, []);
          s1 = scoreTerm (isDisorderTransition pos side (ctx_Disorder ctx)) 30
                 ''disorder transition'' s0;
          s2 = scoreTerm (isDomainBoundary pos (ctx_DomainRanges ctx)) 25 ''domain boundary'' s1;
          s3 = scoreTerm (isLoopRegion pos (ctx_PLDDT ctx)) 20 ''loop-like region'' s2;
          s4 = scoreTerm (hasStructuredSide pos side (ctx_PLDDT ctx)) 15 ''high pLDDT side'' s3;
          s5 = scoreTerm (matchesPDBBoundary pos (ctx_PDBRanges ctx)) 10 ''PDB boundary'' s4;
          s6 = scoreTerm (withinRanges pos (ctx_HelixRanges ctx) \<or>
                          withinRanges pos (ctx_StrandRanges ctx)) (- 50)
                 ''cuts secondary structure'' s5;
          s7 = scoreTerm (withinRanges pos (ctx_ActiveSites ctx)) (- 100) ''near active site'' s6;
          s8 = scoreTerm (withinPositions pos (ctx_PTMPositions ctx) 5) (- 20) ''near PTM site'' s7
      in (clamp (fst s8) 0 100, snd s8))"

text \<open>The body of the loop of scoreCandidates, for one candidate.\<close>

definition scoreCandidate :: "boundaryContext \<Rightarrow> candidate \<Rightarrow> candidate" where
  "scoreCandidate ctx c =
     (case boundaryScore (c_Start c) ''start'' ctx of (startScore, startRationale) \<Rightarrow>
      case boundaryScore (c_End c) ''end'' ctx of (endScore, endRationale) \<Rightarrow>
        let avgScore = (startScore + endScore) / 2;
            c1 = c\<lparr>c_Score := avgScore, c_Rationale := startRationale @ endRationale\<rparr>;
            c2 = (if c_Name c1 \<noteq> [] \<and> c_Source c1 = ''domain''
                  then c1\<lparr>c_Evidence := (c_Evidence c1)\<lparr>ev_Domain := c_Name c1\<rparr>\<rparr> else c1);
            c3 = (if c_PDBID c2 \<noteq> []
                  then c2\<lparr>c_Evidence := (c_Evidence c2)\<lparr>ev_PDBMatch := c_PDBID c2\<rparr>\<rparr> else c2)
        in c3)"

text \<open>
  \<open>sort.SliceStable\<close> of the standard library. For a comparison that is a strict weak
  order the stable sorted arrangement of a slice is unique; it is computed here by
  insertion from the right, each element going in front of the first one that is not
  strictly before it.
\<close>

fun insertStable :: "('a \<Rightarrow> 'a \<Rightarrow> bool) \<Rightarrow> 'a \<Rightarrow> 'a list \<Rightarrow> 'a list" where
  "insertStable lt x [] = [x]"
| "insertStable lt x (y # ys) =
     (if lt y x then y # insertStable lt x ys else x # y # ys)"

definition sort_SliceStable :: "('a \<Rightarrow> 'a \<Rightarrow> bool) \<Rightarrow> 'a list \<Rightarrow> 'a list" where
  "sort_SliceStable lt xs = foldr (insertStable lt) xs []"

definition scoreCandidates ::
  "candidate list \<Rightarrow> boundaryContext \<Rightarrow> int \<Rightarrow> int \<Rightarrow> candidate list" where
  "scoreCandidates candidates ctx minLength maxLength =
     sort_SliceStable (\<lambda>a b. c_Score a > c_Score b) (map (scoreCandidate ctx) candidates)"

subsection \<open>Ranker\<close>

text \<open>The comparison that main passes to \<open>sort.Slice\<close>.\<close>

definition rankLess :: "candidate \<Rightarrow> candidate \<Rightarrow> bool" where
  "rankLess a b =
     (if c_Score a = c_Score b then candidate_Length a < candidate_Length b
      else c_Score a > c_Score b)"

text \<open>
  \<open>sort.Slice\<close> of the standard library is not stable, so its result is described, not
  computed: a slice \<open>ys\<close> is a result of sorting \<open>xs\<close> when it holds the same elements
  and is sorted in the sense of \<open>sort.SliceIsSorted\<close>, no element being strictly before
  its predecessor.
\<close>

fun sort_SliceIsSorted :: "('a \<Rightarrow> 'a \<Rightarrow> bool) \<Rightarrow> 'a list \<Rightarrow> bool" where
  "sort_SliceIsSorted lt [] = True"
| "sort_SliceIsSorted lt [x] = True"
| "sort_SliceIsSorted lt (x # y # ys) = (\<not> lt y x \<and> sort_SliceIsSorted lt (y # ys))"

definition sort_Slice_result :: "('a \<Rightarrow> 'a \<Rightarrow> bool) \<Rightarrow> 'a list \<Rightarrow> 'a list \<Rightarrow> bool" where
  "sort_Slice_result lt xs ys = (mset ys = mset xs \<and> sort_SliceIsSorted lt ys)"

text \<open>\<open>top := scored; if len(top) > 10 { top = top[:10] }\<close>\<close>

definition top10 :: "candidate list \<Rightarrow> candidate list" where
  "top10 scored = (if length scored > 10 then take 10 scored else scored)"

subsection \<open>The run of main from the flags to the scored candidates\<close>

text \<open>
  The flags that matter here, and the evidence that main has resolved when it reaches
  buildCandidates: the sanitized sequence, the confidence array, the normalized features
  and the parsed region. Fetching, feature extraction and region parsing, with their own
  fatal exits, are not part of this model.
\<close>

record mainFlags =
  fl_identifier :: string
  fl_sequence :: string
  fl_name :: string
  fl_minLength :: int
  fl_maxLength :: int

record resolved =
  rs_sequence :: string
  rs_plddt :: "rat list"
  rs_domains :: "rangeInfo list"
  rs_helixes :: "rangeInfo list"
  rs_strands :: "rangeInfo list"
  rs_activeSites :: "rangeInfo list"
  rs_ptmPositions :: "int list"
  rs_pdbRanges :: "pdbRange list"
  rs_regionRange :: "rangeInfo option"
  rs_regionName :: string

datatype failure = Fatal string | Panicked panic

definition defaultMinLength :: int where
  "defaultMinLength = 100"

definition main_scored :: "(string \<Rightarrow> string) \<Rightarrow> mainFlags \<Rightarrow> resolved \<Rightarrow> failure + candidate list" where
  "main_scored toLower fl rs =
     (if fl_sequence fl = [] \<and> fl_identifier fl = []
      then Inl (Fatal ''provide --uniprot or --sequence'')
      else if fl_sequence fl \<noteq> [] \<and> fl_name fl = []
      then Inl (Fatal ''provide --name with --sequence'')
      else let minLength = (if fl_minLength fl \<le> 0 then defaultMinLength else fl_minLength fl);
               maxLength = fl_maxLength fl;
               sequence = rs_sequence rs
           in if sequence = [] then Inl (Fatal ''sequence is empty after sanitization'')
              else case computeDisorderedRegions (rs_plddt rs) (int (length sequence)) of
                     Inl p \<Rightarrow> Inl (Panicked p)
                   | Inr disordered \<Rightarrow>
                       let ctx = \<lparr>ctx_Length = int (length sequence), ctx_Disorder = disordered,
                                  ctx_PLDDT = rs_plddt rs, ctx_DomainRanges = rs_domains rs,
                                  ctx_PDBRanges = rs_pdbRanges rs, ctx_HelixRanges = rs_helixes rs,
                                  ctx_StrandRanges = rs_strands rs,
                                  ctx_ActiveSites = rs_activeSites rs,
                                  ctx_PTMPositions = rs_ptmPositions rs\<rparr>;
                           candidates = buildCandidates toLower sequence (rs_regionRange rs)
                                          (rs_regionName rs) (rs_domains rs) (rs_pdbRanges rs)
                                          disordered minLength maxLength;
                           scored = scoreCandidates candidates ctx minLength maxLength
                       in if length scored = 0
                          then Inl (Fatal ''no construct candidates found with current filters'')
                          else Inr scored)"

text \<open>
  The claim about the loop-like region in its own words, for comparison with isLoopRegion:
  positions are 1-based residue numbers, so residue \<open>r\<close> is \<open>plddt[r - 1]\<close>; the window
  around \<open>p\<close> is the residues \<open>p - 2 .. p + 2\<close>, its outer flanks are the six residues
  \<open>p - 8 .. p - 3\<close> and the six residues \<open>p + 3 .. p + 8\<close>; an average is taken over the
  residues of the window that exist, as avgWindow does.
\<close>

definition residueAvg :: "rat list \<Rightarrow> int \<Rightarrow> int \<Rightarrow> rat" where
  "residueAvg plddt lo hi = avgWindow plddt (lo - 1) (hi - 1)"

definition loopLikeAt :: "int \<Rightarrow> rat list \<Rightarrow> bool" where
  "loopLikeAt p plddt =
     (residueAvg plddt (p - 2) (p + 2) < 70 \<and>
      residueAvg plddt (p - 8) (p - 3) > 70 \<and>
      residueAvg plddt (p + 3) (p + 8) > 70)"

subsection \<open>Resilient fetch client\<close>

type_synonym bytes = "8 word list"

text \<open>
  The errors httpGet returns: the error of \<open>client.Get\<close>, the two errors it formats itself,
  the error of \<open>io.ReadAll\<close> and the error of gunzip.
\<close>

datatype fetchError =
    GetFailed string
  | ResourceNotFound string
  | HttpStatus int
  | ReadFailed string
  | GunzipFailed string

text \<open>
  What one call of \<open>client.Get(url)\<close> gives: an error, or a response with its status code,
  its Content-Encoding header and what reading its body gives.
\<close>

record httpResponse =
  resp_StatusCode :: int
  resp_ContentEncoding :: string
  resp_Body :: "string + bytes"

type_synonym getOutcome = "string + httpResponse"

definition isGzip :: "bytes \<Rightarrow> bool" where
  "isGzip body = (length body \<ge> 2 \<and> body ! 0 = 0x1f \<and> body ! 1 = 0x8b)"

text \<open>
  httpGet. The network is the function \<open>client\<close>, which gives the outcome of the call of
  \<open>client.Get\<close> made in the iteration \<open>attempt\<close>; \<open>gunzip\<close> stands for the function of
  that name, which wraps the standard library's gzip reader. The loop
  \<open>for attempt := 0; attempt < 3; attempt++\<close> is run from \<open>attempt\<close> with the variable
  \<open>lastErr\<close>; the result comes with the number of calls of \<open>client.Get\<close> made and the
  list of the seconds slept.
\<close>

function httpGetLoop ::
  "(nat \<Rightarrow> getOutcome) \<Rightarrow> (bytes \<Rightarrow> string + bytes) \<Rightarrow> string \<Rightarrow> nat \<Rightarrow> fetchError option \<Rightarrow>
     nat list \<Rightarrow> (fetchError option + bytes) \<times> nat \<times> nat list" where
  "httpGetLoop client gunzip url attempt lastErr sleeps =
     (if attempt < 3 then
        (case client attempt of
           Inl err \<Rightarrow>
             httpGetLoop client gunzip url (Suc attempt) (Some (GetFailed err))
               (sleeps @ [attempt + 1])
         | Inr resp \<Rightarrow>
             if resp_StatusCode resp = 404
             then (Inl (Some (ResourceNotFound url)), Suc attempt, sleeps)
             else if resp_StatusCode resp < 200 \<or> resp_StatusCode resp \<ge> 300
             then httpGetLoop client gunzip url (Suc attempt)
                    (Some (HttpStatus (resp_StatusCode resp))) (sleeps @ [attempt + 1])
             else (case resp_Body resp of
                     Inl err \<Rightarrow>
                       httpGetLoop client gunzip url (Suc attempt) (Some (ReadFailed err))
                         (sleeps @ [attempt + 1])
                   | Inr body \<Rightarrow>
                       if resp_ContentEncoding resp = ''gzip'' \<or> isGzip body
                       then (case gunzip body of
                               Inl err \<Rightarrow> (Inl (Some (GunzipFailed err)), Suc attempt, sleeps)
                             | Inr decoded \<Rightarrow> (Inr decoded, Suc attempt, sleeps))
                       else (Inr body, Suc attempt, sleeps)))
      else (Inl lastErr, attempt, sleeps))"
  by pat_completeness auto
termination
  by (relation "measure (\<lambda>(client, gunzip, url, attempt, lastErr, sleeps). 3 - attempt)") auto

declare httpGetLoop.simps [simp del]

definition httpGet ::
  "(nat \<Rightarrow> getOutcome) \<Rightarrow> (bytes \<Rightarrow> string + bytes) \<Rightarrow> string \<Rightarrow>
     (fetchError option + bytes) \<times> nat \<times> nat list" where
  "httpGet client gunzip url = httpGetLoop client gunzip url 0 None []"

text \<open>
  The outcomes of an attempt after which the loop goes on: a failure of \<open>client.Get\<close>, a
  status outside 200..299 other than 404, a failure to read the body; and the error such
  an attempt leaves in \<open>lastErr\<close>. The outcome that ends the loop with the not-found error
  is a response with status 404.
\<close>

definition retried :: "getOutcome \<Rightarrow> bool" where
  "retried out =
     (case out of
        Inl err \<Rightarrow> True
      | Inr resp \<Rightarrow>
          resp_StatusCode resp \<noteq> 404 \<and>
          (resp_StatusCode resp < 200 \<or> resp_StatusCode resp \<ge> 300 \<or> isl (resp_Body resp)))"

definition attemptError :: "getOutcome \<Rightarrow> fetchError" where
  "attemptError out =
     (case out of
        Inl err \<Rightarrow> GetFailed err
      | Inr resp \<Rightarrow>
          if resp_StatusCode resp < 200 \<or> resp_StatusCode resp \<ge> 300
          then HttpStatus (resp_StatusCode resp)
          else (case resp_Body resp of Inl err \<Rightarrow> ReadFailed err | Inr body \<Rightarrow> ReadFailed []))"

definition notFound :: "getOutcome \<Rightarrow> bool" where
  "notFound out = (case out of Inl err \<Rightarrow> False | Inr resp \<Rightarrow> resp_StatusCode resp = 404)"

subsection \<open>Result cache\<close>












subsection \<open>The standard library's JSON encoding of a cache entry\<close>

text \<open>
  What \<open>json.MarshalIndent(entry, "", "  ")\<close> and \<open>json.Unmarshal\<close> of the package
  encoding/json do with a cacheEntry, as far as the payload is concerned. The payload is
  a \<open>json.RawMessage\<close>: the encoder puts the payload into the text of the entry as it
  is, and then indents the whole text, the payload with it; the decoder gives back, as
  the payload, the bytes that stand in the file for the value of the field. The time
  stamp is written here as its count of nanoseconds, where the library writes a date
  and a time. A payload that is not a JSON text, which the library refuses, is outside
  this model.
\<close>

definition bytes_of :: "string \<Rightarrow> bytes" where
  "bytes_of s = map of_char s"

definition string_of :: "bytes \<Rightarrow> string" where
  "string_of b = map (\<lambda>w. char_of (unat w)) b"

definition json_quote :: char where
  "json_quote = CHR 0x22"


definition json_space :: "char \<Rightarrow> bool" where
  "json_space c = (c = CHR 0x20 \<or> c = CHR 0x09 \<or> c = CHR 0x0D \<or> c = CHR 0x0A)"













subsection \<open>Example data\<close>

text \<open>
  A protein of 60 residues without confidence data, with one domain 5-58 and one
  modified residue at position 3, and two candidates for it; and a confidence array of 20
  residues with a dip at residues 8 to 12.
\<close>

definition example_ctx :: boundaryContext where
  "example_ctx =
     \<lparr>ctx_Length = 60, ctx_Disorder = replicate 60 False, ctx_PLDDT = [],
      ctx_DomainRanges = [\<lparr>ri_Start = 5, ri_End = 58, ri_Name = ''Kinase'', ri_Type = ''Domain'',
                           ri_Source = ''UniProt''\<rparr>],
      ctx_PDBRanges = [], ctx_HelixRanges = [], ctx_StrandRanges = [], ctx_ActiveSites = [],
      ctx_PTMPositions = [3]\<rparr>"

definition example_candidate :: "int \<Rightarrow> int \<Rightarrow> string \<Rightarrow> string \<Rightarrow> candidate" where
  "example_candidate s e source name =
     \<lparr>c_Start = s, c_End = e, c_Source = source, c_Name = name, c_PDBID = [], c_Score = 0,
      c_Rationale = [], c_Evidence = evidence_zero\<rparr>"

definition example_candidates :: "candidate list" where
  "example_candidates =
     [example_candidate 5 58 ''domain'' ''Kinase'',
      example_candidate 1 60 ''ordered'' ''ordered_segment'']"

definition example_plddt :: "rat list" where
  "example_plddt = [90, 90, 90, 90, 90, 90, 90, 65, 65, 65, 65, 65, 100, 90, 90, 90, 90, 90, 90, 90]"

text \<open>
  A run of main on a raw sequence of 120 residues with the minimum length given as 0, and
  one domain of 54 residues.
\<close>

definition example_flags :: mainFlags where
  "example_flags =
     \<lparr>fl_identifier = [], fl_sequence = replicate 120 (CHR ''A''), fl_name = ''demo'',
      fl_minLength = 0, fl_maxLength = 0\<rparr>"

definition example_resolved :: resolved where
  "example_resolved =
     \<lparr>rs_sequence = replicate 120 (CHR ''A''), rs_plddt = [],
      rs_domains = [\<lparr>ri_Start = 5, ri_End = 58, ri_Name = ''Kinase'', ri_Type = ''Domain'',
                     ri_Source = ''UniProt''\<rparr>],
      rs_helixes = [], rs_strands = [], rs_activeSites = [], rs_ptmPositions = [],
      rs_pdbRanges = [], rs_regionRange = None, rs_regionName = []\<rparr>"

text \<open>
  For the fetch client: a network that fails once and then answers 404, and one that
  answers 500, 502 and 503. For the cache: an empty cache directory and a fetch function that counts its
  calls.
\<close>

definition example_response :: "int \<Rightarrow> httpResponse" where
  "example_response status =
     \<lparr>resp_StatusCode = status, resp_ContentEncoding = [], resp_Body = Inr [1, 2, 3]\<rparr>"

definition example_client_404 :: "nat \<Rightarrow> getOutcome" where
  "example_client_404 attempt =
     (if attempt = 0 then Inl ''connection refused'' else Inr (example_response 404))"

definition example_client_5xx :: "nat \<Rightarrow> getOutcome" where
  "example_client_5xx attempt =
     (if attempt = 0 then Inr (example_response 500)
      else if attempt = 1 then Inr (example_response 502)
      else Inr (example_response 503))"

definition example_gunzip :: "bytes \<Rightarrow> string + bytes" where
  "example_gunzip body = Inl ''gzip: invalid header''"

text \<open>
  The payload \<open>{"a":1}\<close>, and the same JSON value as it stands in the cache file, on
  three lines with the indentation of the second level.
\<close>

definition example_payload :: bytes where
  "example_payload =
     bytes_of (CHR ''{'' # json_quote # CHR ''a'' # json_quote # '':1}'')"

definition example_stored :: bytes where
  "example_stored =
     bytes_of (CHR ''{'' # CHR 0x0A # ''    '' @ json_quote # CHR ''a'' # json_quote #
               '': 1'' @ CHR 0x0A # ''  }'')"



section \<open>Verification\<close>

subsection \<open>Facts about the disorder computer\<close>

lemma length_disorderLoop: "length (disorderLoop plddt len i disorder) = length disorder"
proof (induction plddt len i disorder rule: disorderLoop.induct)
  case (1 plddt len i disorder)
  show ?case
  proof (cases "i < len \<and> i < length plddt")
    case True
    then show ?thesis
      using "1.IH" by (subst disorderLoop.simps) simp
  next
    case False
    then show ?thesis
      by (subst disorderLoop.simps) auto
  qed
qed

lemma nth_disorderLoop:
  "k < length disorder \<Longrightarrow> length disorder = len \<Longrightarrow>
     disorderLoop plddt len i disorder ! k =
       (if i \<le> k \<and> k < length plddt then plddt ! k < 50 \<or> disorder ! k else disorder ! k)"
proof (induction plddt len i disorder rule: disorderLoop.induct)
  case (1 plddt len i disorder)
  show ?case
  proof (cases "i < len \<and> i < length plddt")
    case True
    let ?d = "if plddt ! i < 50 then disorder[i := True] else disorder"
    have len: "k < length ?d" "length ?d = len"
      using "1.prems" by simp_all
    have step: "disorderLoop plddt len i disorder ! k = disorderLoop plddt len (Suc i) ?d ! k"
      using True by (subst disorderLoop.simps) simp
    have "disorderLoop plddt len (Suc i) ?d ! k =
            (if Suc i \<le> k \<and> k < length plddt then plddt ! k < 50 \<or> ?d ! k else ?d ! k)"
      using "1.IH" [OF True len] .
    with step True "1.prems" show ?thesis
      by (cases "k = i") (auto simp: nth_list_update)
  next
    case False
    with "1.prems" show ?thesis
      by (subst disorderLoop.simps) auto
  qed
qed

lemma computeDisorderedRegions_Inr:
  assumes "0 \<le> len"
  shows "\<exists>mask. computeDisorderedRegions plddt len = Inr mask \<and> length mask = nat len \<and>
           (\<forall>i < nat len. mask ! i = (i < length plddt \<and> plddt ! i < 50))"
proof (cases "length plddt = 0 \<or> len = 0")
  case True
  with assms show ?thesis
    by (auto simp: computeDisorderedRegions_def make_bools_def)
next
  case False
  let ?z = "replicate (nat len) False"
  have eq: "computeDisorderedRegions plddt len = Inr (disorderLoop plddt (nat len) 0 ?z)"
    using False assms by (simp add: computeDisorderedRegions_def make_bools_def)
  have "\<forall>i < nat len. disorderLoop plddt (nat len) 0 ?z ! i = (i < length plddt \<and> plddt ! i < 50)"
    by (simp add: nth_disorderLoop)
  with eq show ?thesis
    by (simp add: length_disorderLoop)
qed

lemma computeDisorderedRegions_negative:
  "len < 0 \<Longrightarrow> computeDisorderedRegions plddt len = Inl MakesliceLenOutOfRange"
  by (simp add: computeDisorderedRegions_def make_bools_def)

text \<open>
  C2. For every confidence array and every requested length (a length is not negative),
  computeDisorderedRegions returns a mask of exactly that length whose entry \<open>i\<close> is true
  exactly when \<open>i < len(confidence)\<close> and \<open>confidence[i] < 50\<close>; an empty confidence
  array gives the all-false mask, and the array 80, 40, 30, 90, 60, 49 with length 6 gives
  false, true, true, false, false, true.
\<close>

theorem computeDisorderedRegions_mask:
  "0 \<le> len \<Longrightarrow>
     (\<exists>mask. computeDisorderedRegions plddt len = Inr mask \<and> length mask = nat len \<and>
        (\<forall>i < nat len. mask ! i = (i < length plddt \<and> plddt ! i < 50))) \<and>
     computeDisorderedRegions [] len = Inr (replicate (nat len) False) \<and>
     computeDisorderedRegions [80, 40, 30, 90, 60, 49] 6 = Inr [False, True, True, False, False, True]"
proof (intro conjI)
  assume len: "0 \<le> len"
  show "\<exists>mask. computeDisorderedRegions plddt len = Inr mask \<and> length mask = nat len \<and>
          (\<forall>i < nat len. mask ! i = (i < length plddt \<and> plddt ! i < 50))"
    using len by (rule computeDisorderedRegions_Inr)
  show "computeDisorderedRegions [] len = Inr (replicate (nat len) False)"
    using len by (simp add: computeDisorderedRegions_def make_bools_def)
  show "computeDisorderedRegions [80, 40, 30, 90, 60, 49] 6 = Inr [False, True, True, False, False, True]"
    by (simp add: computeDisorderedRegions_def make_bools_def disorderLoop.simps eval_nat_numeral)
qed

theorem computeDisorderedRegions_mask_witness:
  "(0::int) \<le> 3 \<and>
   (\<exists>mask. computeDisorderedRegions [40, 60] 3 = Inr mask \<and> length mask = 3 \<and>
      (\<forall>i < 3. mask ! i = (i < 2 \<and> [40, 60 :: rat] ! i < 50))) \<and>
   computeDisorderedRegions [] 3 = Inr [False, False, False]"
  using computeDisorderedRegions_mask [of 3 "[40, 60]"]
  by (simp add: eval_nat_numeral)

text \<open>
  C3, as stated: for a non-empty confidence array the mask would have the length of the
  confidence array capped at the sequence length. The code allocates the mask with the
  sequence length in both branches: one confidence value and a sequence of three residues
  give a mask of three entries, not of one.
\<close>

theorem disorder_mask_length_counterexample:
  "computeDisorderedRegions [40] 3 = Inr [True, False, False] \<and>
   length [True, False, False] \<noteq> min (length [40 :: rat]) (nat 3)"
  by (simp add: computeDisorderedRegions_def make_bools_def disorderLoop.simps eval_nat_numeral)

text \<open>
  C3, amended: for every confidence array, empty or not, the mask has the sequence length;
  the thresholding stops at the shorter of the two lengths, so every entry from
  \<open>min(len(confidence), sequenceLength)\<close> on is false and every entry below it is true
  exactly when the confidence there is below 50. With an empty confidence array all
  entries are false.
\<close>

theorem disorder_mask_length:
  "0 \<le> len \<Longrightarrow>
     (\<exists>mask. computeDisorderedRegions plddt len = Inr mask \<and> length mask = nat len \<and>
        (\<forall>i < nat len. min (length plddt) (nat len) \<le> i \<longrightarrow> \<not> mask ! i) \<and>
        (\<forall>i < min (length plddt) (nat len). mask ! i = (plddt ! i < 50)) \<and>
        (plddt = [] \<longrightarrow> mask = replicate (nat len) False))"
proof -
  assume len: "0 \<le> len"
  from computeDisorderedRegions_Inr [OF len, of plddt]
  obtain mask where m: "computeDisorderedRegions plddt len = Inr mask" "length mask = nat len"
    "\<forall>i < nat len. mask ! i = (i < length plddt \<and> plddt ! i < 50)"
    by blast
  have "plddt = [] \<longrightarrow> mask = replicate (nat len) False"
    using m(1) len by (auto simp: computeDisorderedRegions_def make_bools_def)
  with m show ?thesis
    by auto
qed

theorem disorder_mask_length_witness:
  "(0::int) \<le> 3 \<and>
   (\<exists>mask. computeDisorderedRegions [40] 3 = Inr mask \<and> length mask = 3 \<and>
      (\<forall>i < 3. min 1 3 \<le> i \<longrightarrow> \<not> mask ! i) \<and>
      (\<forall>i < min 1 3. mask ! i = ([40 :: rat] ! i < 50)))"
  using disorder_mask_length [of 3 "[40]"]
  by (simp add: eval_nat_numeral)

subsection \<open>Runs of the mask: compressDisorder and orderedRanges\<close>

lemma truePos_Nil: "truePos i [] = {}"
  by (auto simp: truePos_def)

lemma truePos_Cons:
  "truePos i (x # xs) = (if x then {int i + 1} else {}) \<union> truePos (Suc i) xs"
proof -
  have "\<And>p. int i + 1 < p \<Longrightarrow> nat (p - int i - 1) = Suc (nat (p - int (Suc i) - 1))"
    by simp
  then show ?thesis
    unfolding truePos_def
    by (auto simp: nth_Cons split: nat.splits)
qed

lemma coverCount_append: "coverCount p (rs @ ss) = coverCount p rs + coverCount p ss"
  by (simp add: coverCount_def)

lemma coverCount_disorderRange:
  "coverCount p [disorderRange s e] = (if s \<le> p \<and> p \<le> e then 1 else 0)"
  by (simp add: coverCount_def covers_def disorderRange_def)

lemma coverCount_compressLoop:
  "start = 0 \<or> (1 \<le> start \<and> start \<le> int i) \<Longrightarrow>
   coverCount p (compressFlush (i + length xs) (compressLoop xs i start regions)) =
     coverCount p regions +
       (if (start \<noteq> 0 \<and> start \<le> p \<and> p \<le> int i) \<or> p \<in> truePos i xs then 1 else 0)"
proof (induction xs arbitrary: i start regions)
  case Nil
  then show ?case
    by (auto simp: compressFlush_def truePos_Nil coverCount_append coverCount_disorderRange)
next
  case (Cons flag rest)
  have notin: "\<And>q. q \<le> int i + 1 \<Longrightarrow> q \<notin> truePos (Suc i) rest"
    by (auto simp: truePos_def)
  show ?case
  proof (cases "\<not> flag \<and> start \<noteq> 0")
    case True
    have "coverCount p (compressFlush (Suc i + length rest) (compressLoop rest (Suc i) 0 (regions @ [disorderRange start (int i)]))) =
       coverCount p (regions @ [disorderRange start (int i)]) + (if p \<in> truePos (Suc i) rest then 1 else 0)"
      using Cons.IH [of 0 "Suc i" "regions @ [disorderRange start (int i)]"] by simp
    with True Cons.prems show ?thesis
      using notin [of p]
      by (auto simp: truePos_Cons coverCount_append coverCount_disorderRange)
  next
    case False
    let ?s = "if flag \<and> start = 0 then int i + 1 else start"
    have pre: "?s = 0 \<or> (1 \<le> ?s \<and> ?s \<le> int (Suc i))"
      using Cons.prems by auto
    have "coverCount p (compressFlush (Suc i + length rest) (compressLoop rest (Suc i) ?s regions)) =
       coverCount p regions + (if (?s \<noteq> 0 \<and> ?s \<le> p \<and> p \<le> int (Suc i)) \<or> p \<in> truePos (Suc i) rest then 1 else 0)"
      using Cons.IH [OF pre] .
    with False Cons.prems show ?thesis
      using notin [of p]
      by (auto simp: truePos_Cons Let_def)
  qed
qed

lemma coverCount_orderedRange:
  "coverCount p [orderedRange s e] = (if s \<le> p \<and> p \<le> e then 1 else 0)"
  by (simp add: coverCount_def covers_def orderedRange_def)

lemma coverCount_orderedLoop:
  "start = 0 \<or> (1 \<le> start \<and> start \<le> int i) \<Longrightarrow>
   coverCount p (orderedFlush (i + length xs) (orderedLoop xs i start ranges)) =
     coverCount p ranges +
       (if (start \<noteq> 0 \<and> start \<le> p \<and> p \<le> int i) \<or> p \<in> truePos i (map Not xs) then 1 else 0)"
proof (induction xs arbitrary: i start ranges)
  case Nil
  then show ?case
    by (auto simp: orderedFlush_def truePos_Nil coverCount_append coverCount_orderedRange)
next
  case (Cons flag rest)
  have notin: "\<And>q. q \<le> int i + 1 \<Longrightarrow> q \<notin> truePos (Suc i) (map Not rest)"
    by (auto simp: truePos_def)
  show ?case
  proof (cases "flag \<and> start \<noteq> 0")
    case True
    have "coverCount p (orderedFlush (Suc i + length rest) (orderedLoop rest (Suc i) 0 (ranges @ [orderedRange start (int i)]))) =
       coverCount p (ranges @ [orderedRange start (int i)]) + (if p \<in> truePos (Suc i) (map Not rest) then 1 else 0)"
      using Cons.IH [of 0 "Suc i" "ranges @ [orderedRange start (int i)]"] by simp
    with True Cons.prems show ?thesis
      using notin [of p]
      by (auto simp: truePos_Cons coverCount_append coverCount_orderedRange)
  next
    case False
    let ?s = "if \<not> flag \<and> start = 0 then int i + 1 else start"
    have pre: "?s = 0 \<or> (1 \<le> ?s \<and> ?s \<le> int (Suc i))"
      using Cons.prems by auto
    have "coverCount p (orderedFlush (Suc i + length rest) (orderedLoop rest (Suc i) ?s ranges)) =
       coverCount p ranges + (if (?s \<noteq> 0 \<and> ?s \<le> p \<and> p \<le> int (Suc i)) \<or> p \<in> truePos (Suc i) (map Not rest) then 1 else 0)"
      using Cons.IH [OF pre] .
    with False Cons.prems show ?thesis
      using notin [of p]
      by (auto simp: truePos_Cons Let_def)
  qed
qed

lemma wellRange_compressLoop:
  "start = 0 \<or> (1 \<le> start \<and> start \<le> int i) \<Longrightarrow> \<forall>r \<in> set regions. wellRange (i + length xs) r \<Longrightarrow>
   \<forall>r \<in> set (compressFlush (i + length xs) (compressLoop xs i start regions)). wellRange (i + length xs) r"
proof (induction xs arbitrary: i start regions)
  case Nil
  then show ?case
    by (auto simp: compressFlush_def wellRange_def disorderRange_def)
next
  case (Cons flag rest)
  show ?case
  proof (cases "\<not> flag \<and> start \<noteq> 0")
    case True
    have "\<forall>r \<in> set (regions @ [disorderRange start (int i)]). wellRange (Suc i + length rest) r"
      using Cons.prems True by (auto simp: wellRange_def disorderRange_def)
    from Cons.IH [of 0 "Suc i", OF _ this] True show ?thesis
      by simp
  next
    case False
    let ?s = "if flag \<and> start = 0 then int i + 1 else start"
    have pre: "?s = 0 \<or> (1 \<le> ?s \<and> ?s \<le> int (Suc i))"
      using Cons.prems by auto
    have "\<forall>r \<in> set regions. wellRange (Suc i + length rest) r"
      using Cons.prems by simp
    from Cons.IH [OF pre this] False show ?thesis
      by (auto simp: Let_def)
  qed
qed

lemma wellRange_orderedLoop:
  "start = 0 \<or> (1 \<le> start \<and> start \<le> int i) \<Longrightarrow> \<forall>r \<in> set ranges. wellRange (i + length xs) r \<Longrightarrow>
   \<forall>r \<in> set (orderedFlush (i + length xs) (orderedLoop xs i start ranges)). wellRange (i + length xs) r"
proof (induction xs arbitrary: i start ranges)
  case Nil
  then show ?case
    by (auto simp: orderedFlush_def wellRange_def orderedRange_def)
next
  case (Cons flag rest)
  show ?case
  proof (cases "flag \<and> start \<noteq> 0")
    case True
    have "\<forall>r \<in> set (ranges @ [orderedRange start (int i)]). wellRange (Suc i + length rest) r"
      using Cons.prems True by (auto simp: wellRange_def orderedRange_def)
    from Cons.IH [of 0 "Suc i", OF _ this] True show ?thesis
      by simp
  next
    case False
    let ?s = "if \<not> flag \<and> start = 0 then int i + 1 else start"
    have pre: "?s = 0 \<or> (1 \<le> ?s \<and> ?s \<le> int (Suc i))"
      using Cons.prems by auto
    have "\<forall>r \<in> set ranges. wellRange (Suc i + length rest) r"
      using Cons.prems by simp
    from Cons.IH [OF pre this] False show ?thesis
      by (auto simp: Let_def)
  qed
qed

lemma compressDisorder_flush: "compressDisorder m = compressFlush (0 + length m) (compressLoop m 0 0 [])"
  by (simp add: compressDisorder_def compressFlush_def)

lemma orderedRanges_flush: "orderedRanges m = orderedFlush (0 + length m) (orderedLoop m 0 0 [])"
  by (simp add: orderedRanges_def orderedFlush_def)

lemma coverCount_compressDisorder:
  "coverCount p (compressDisorder m) = (if p \<in> truePos 0 m then 1 else 0)"
  unfolding compressDisorder_flush
  by (subst coverCount_compressLoop) (simp_all add: coverCount_def)

lemma coverCount_orderedRanges:
  "coverCount p (orderedRanges m) = (if p \<in> truePos 0 (map Not m) then 1 else 0)"
  unfolding orderedRanges_flush
  by (subst coverCount_orderedLoop) (simp_all add: coverCount_def)

lemma wellRange_compressDisorder: "r \<in> set (compressDisorder m) \<Longrightarrow> wellRange (length m) r"
  using wellRange_compressLoop [of 0 0 "[]" m] by (simp add: compressDisorder_flush)

lemma wellRange_orderedRanges: "r \<in> set (orderedRanges m) \<Longrightarrow> wellRange (length m) r"
  using wellRange_orderedLoop [of 0 0 "[]" m] by (simp add: orderedRanges_flush)

text \<open>
  C4. For every disorder mask, the ranges of compressDisorder (the runs of true) together
  with the ranges of orderedRanges (the runs of false) partition the 1-based positions
  \<open>1 .. len(mask)\<close>: every position lies in exactly one emitted range and no position
  outside lies in any; a position lies in a disorder range exactly when its mask entry is
  true; and every range is non-empty and inside \<open>[1, len(mask)]\<close>.
\<close>

theorem disorder_ordered_partition:
  "(\<forall>p. coverCount p (compressDisorder m @ orderedRanges m) =
         (if 1 \<le> p \<and> p \<le> int (length m) then 1 else 0)) \<and>
   (\<forall>p. 1 \<le> p \<and> p \<le> int (length m) \<longrightarrow>
         coverCount p (compressDisorder m) = (if m ! nat (p - 1) then 1 else 0) \<and>
         coverCount p (orderedRanges m) = (if m ! nat (p - 1) then 0 else 1)) \<and>
   (\<forall>r \<in> set (compressDisorder m @ orderedRanges m).
         1 \<le> ri_Start r \<and> ri_Start r \<le> ri_End r \<and> ri_End r \<le> int (length m))"
proof (intro conjI allI ballI impI)
  fix p
  show "coverCount p (compressDisorder m @ orderedRanges m) =
         (if 1 \<le> p \<and> p \<le> int (length m) then 1 else 0)"
    by (auto simp: coverCount_append coverCount_compressDisorder coverCount_orderedRanges truePos_def)
next
  fix p assume "1 \<le> p \<and> p \<le> int (length m)"
  then show "coverCount p (compressDisorder m) = (if m ! nat (p - 1) then 1 else 0)"
    by (auto simp: coverCount_compressDisorder truePos_def)
next
  fix p assume "1 \<le> p \<and> p \<le> int (length m)"
  then show "coverCount p (orderedRanges m) = (if m ! nat (p - 1) then 0 else 1)"
    by (auto simp: coverCount_orderedRanges truePos_def)
next
  fix r assume "r \<in> set (compressDisorder m @ orderedRanges m)"
  then have w: "wellRange (length m) r"
    using wellRange_compressDisorder wellRange_orderedRanges by auto
  from w show "1 \<le> ri_Start r" by (simp add: wellRange_def)
  from w show "ri_Start r \<le> ri_End r" by (simp add: wellRange_def)
  from w show "ri_End r \<le> int (length m)" by (simp add: wellRange_def)
qed

theorem disorder_ordered_partition_witness:
  "compressDisorder [False, True, True, False, False, True] = [disorderRange 2 3, disorderRange 6 6] \<and>
   orderedRanges [False, True, True, False, False, True] = [orderedRange 1 1, orderedRange 4 5] \<and>
   coverCount 5 ([disorderRange 2 3, disorderRange 6 6] @ [orderedRange 1 1, orderedRange 4 5]) = 1 \<and>
   coverCount 7 ([disorderRange 2 3, disorderRange 6 6] @ [orderedRange 1 1, orderedRange 4 5]) = 0 \<and>
   coverCount 3 [disorderRange 2 3, disorderRange 6 6] = 1 \<and>
   coverCount 3 [orderedRange 1 1, orderedRange 4 5] = 0 \<and>
   (1::int) \<le> ri_Start (orderedRange 4 5) \<and> ri_End (orderedRange 4 5) \<le> 6"
proof -
  let ?m = "[False, True, True, False, False, True]"
  have c: "compressDisorder ?m = [disorderRange 2 3, disorderRange 6 6]"
    by (simp add: compressDisorder_def)
  have d: "orderedRanges ?m = [orderedRange 1 1, orderedRange 4 5]"
    by (simp add: orderedRanges_def)
  have r: "orderedRange 4 5 \<in> set (compressDisorder ?m @ orderedRanges ?m)"
    by (simp add: d)
  from disorder_ordered_partition [of ?m] c d r show ?thesis
    by (simp add: orderedRange_def)
qed

subsection \<open>Candidate generator\<close>

lemma addCandidate_inv:
  assumes "candidatesInv minLength maxLength st"
  shows "candidatesInv minLength maxLength
           (addCandidate minLength maxLength st start end source name pdbID)"
proof (cases st)
  case (Pair candidates seen)
  let ?key = "candidateKey start end"
  show ?thesis
  proof (cases "start \<le> 0 \<or> end \<le> 0 \<or> start > end \<or> end - start + 1 < minLength \<or>
                (maxLength > 0 \<and> end - start + 1 > maxLength) \<or> seen_get seen ?key")
    case True
    then have "addCandidate minLength maxLength st start end source name pdbID = st"
      by (auto simp: addCandidate_def Pair Let_def)
    with assms show ?thesis by simp
  next
    case False
    let ?c = "\<lparr>c_Start = start, c_End = end, c_Source = source, c_Name = name,
               c_PDBID = pdbID, c_Score = 0, c_Rationale = [], c_Evidence = evidence_zero\<rparr>"
    have eq: "addCandidate minLength maxLength st start end source name pdbID =
                (candidates @ [?c], seen(?key \<mapsto> True))"
      using False by (auto simp: addCandidate_def Pair Let_def)
    have ok: "candidateOk minLength maxLength ?c"
      using False by (auto simp: candidateOk_def)
    have fresh: "(start, end) \<notin> set (map startEnd candidates)"
    proof
      assume "(start, end) \<in> set (map startEnd candidates)"
      then obtain c where c: "c \<in> set candidates" "c_Start c = start" "c_End c = end"
        by (auto simp: startEnd_def)
      with assms have "seen_get seen ?key"
        by (auto simp: candidatesInv_def Pair)
      with False show False by simp
    qed
    have marked: "\<forall>c \<in> set (candidates @ [?c]).
        seen_get (seen(?key \<mapsto> True)) (candidateKey (c_Start c) (c_End c))"
      using assms by (auto simp: candidatesInv_def Pair seen_get_def)
    from assms ok fresh marked show ?thesis
      unfolding eq by (auto simp: candidatesInv_def Pair startEnd_def)
  qed
qed

lemma foldl_inv:
  assumes "P st" and "\<And>s x. P s \<Longrightarrow> P (f s x)"
  shows "P (foldl f st xs)"
  using assms(1) by (induction xs arbitrary: st) (auto intro: assms(2))

lemma buildCandidates_inv:
  "\<exists>seen. candidatesInv minLength maxLength
     (buildCandidates toLower sequence regionRange regionName domains pdbRanges disordered
        minLength maxLength, seen)"
proof -
  let ?inv = "candidatesInv minLength maxLength"
  let ?st0 = "([], Map.empty) :: candidate list \<times> seenMap"
  let ?st1 = "case regionRange of
                None \<Rightarrow> ?st0
              | Some r \<Rightarrow> addCandidate minLength maxLength ?st0 (ri_Start r) (ri_End r)
                            ''user'' ''user_region'' []"
  let ?f2 = "\<lambda>st domain.
                   if regionName \<noteq> [] \<and>
                      \<not> strings_Contains (toLower (ri_Name domain)) (toLower regionName)
                   then st
                   else addCandidate minLength maxLength st (ri_Start domain) (ri_End domain)
                          ''domain'' (ri_Name domain) []"
  let ?st2 = "foldl ?f2 ?st1 domains"
  let ?f3 = "\<lambda>st pdb.
                   addCandidate minLength maxLength st (pdb_Start pdb) (pdb_End pdb)
                     ''pdb'' (pdb_ID pdb) (pdb_ID pdb)"
  let ?st3 = "foldl ?f3 ?st2 pdbRanges"
  let ?f4 = "\<lambda>st seg.
                        addCandidate minLength maxLength st (ri_Start seg) (ri_End seg)
                          ''ordered'' ''ordered_segment'' []"
  let ?st4 = "if regionRange = None \<and> regionName = []
                 then foldl ?f4 ?st3 (orderedRanges disordered)
                 else ?st3"
  have 0: "?inv ?st0"
    by (simp add: candidatesInv_def)
  have 1: "?inv ?st1"
    using 0 by (auto split: option.splits intro: addCandidate_inv)
  have 2: "?inv ?st2"
    by (rule foldl_inv [where P = ?inv, OF 1]) (auto intro: addCandidate_inv)
  have 3: "?inv ?st3"
    by (rule foldl_inv [where P = ?inv, OF 2]) (auto intro: addCandidate_inv)
  have 4: "?inv ?st4"
  proof (cases "regionRange = None \<and> regionName = []")
    case True
    have "?inv (foldl ?f4 ?st3 (orderedRanges disordered))"
      by (rule foldl_inv [where P = ?inv, OF 3]) (auto intro: addCandidate_inv)
    then show ?thesis
      by (simp only: if_P [OF True])
  next
    case False
    from 3 show ?thesis
      by (simp only: if_not_P [OF False])
  qed
  have eq: "buildCandidates toLower sequence regionRange regionName domains pdbRanges disordered
          minLength maxLength = fst ?st4"
    by (simp add: buildCandidates_def Let_def)
  from 4 have 5: "?inv (fst ?st4, snd ?st4)"
    by (simp only: prod.collapse)
  show ?thesis
    unfolding eq
  proof (intro exI)
    show "?inv (fst ?st4, snd ?st4)" by (fact 5)
  qed
qed

text \<open>
  C5. For every input, every candidate in the list returned by buildCandidates satisfies
  \<open>start \<ge> 1\<close>, \<open>start \<le> end\<close>, \<open>end - start + 1 \<ge> minLength\<close> and, when
  \<open>maxLength > 0\<close>, \<open>end - start + 1 \<le> maxLength\<close>; and no two candidates of the list
  have the same pair of start and end.
\<close>

theorem buildCandidates_filtered_distinct:
  "(\<forall>c \<in> set (buildCandidates toLower sequence regionRange regionName domains pdbRanges
                  disordered minLength maxLength).
       1 \<le> c_Start c \<and> c_Start c \<le> c_End c \<and> minLength \<le> c_End c - c_Start c + 1 \<and>
       (maxLength > 0 \<longrightarrow> c_End c - c_Start c + 1 \<le> maxLength)) \<and>
   distinct (map (\<lambda>c. (c_Start c, c_End c))
      (buildCandidates toLower sequence regionRange regionName domains pdbRanges
         disordered minLength maxLength))"
proof -
  from buildCandidates_inv [of minLength maxLength toLower sequence regionRange regionName
      domains pdbRanges disordered]
  obtain seen where "candidatesInv minLength maxLength
     (buildCandidates toLower sequence regionRange regionName domains pdbRanges disordered
        minLength maxLength, seen)" ..
  then show ?thesis
    unfolding candidatesInv_def candidateOk_def startEnd_def [abs_def] by simp
qed

theorem buildCandidates_filtered_distinct_witness:
  "map (\<lambda>c. (c_Start c, c_End c))
     (buildCandidates id ''MKV'' None []
        [\<lparr>ri_Start = 5, ri_End = 58, ri_Name = ''Kinase'', ri_Type = ''Domain'',
          ri_Source = ''UniProt''\<rparr>]
        [\<lparr>pdb_ID = ''1ABC'', pdb_Start = 5, pdb_End = 58, pdb_Method = ''X-ray'',
          pdb_Resolution = ''2.0''\<rparr>,
         \<lparr>pdb_ID = ''2XYZ'', pdb_Start = 10, pdb_End = 20, pdb_Method = ''NMR'',
          pdb_Resolution = []\<rparr>]
        (replicate 60 False) 50 0) = [(5, 58), (1, 60)] \<and>
   (1::int) \<le> 5 \<and> (5::int) \<le> 58 \<and> (50::int) \<le> 58 - 5 + 1 \<and>
   distinct [(5::int, 58::int), (1, 60)]"
proof -
  let ?cs = "buildCandidates id ''MKV'' None []
        [\<lparr>ri_Start = 5, ri_End = 58, ri_Name = ''Kinase'', ri_Type = ''Domain'',
          ri_Source = ''UniProt''\<rparr>]
        [\<lparr>pdb_ID = ''1ABC'', pdb_Start = 5, pdb_End = 58, pdb_Method = ''X-ray'',
          pdb_Resolution = ''2.0''\<rparr>,
         \<lparr>pdb_ID = ''2XYZ'', pdb_Start = 10, pdb_End = 20, pdb_Method = ''NMR'',
          pdb_Resolution = []\<rparr>]
        (replicate 60 False) 50 0"
  have ev: "map (\<lambda>c. (c_Start c, c_End c)) ?cs = [(5, 58), (1, 60)]"
    by code_simp
  have "distinct (map (\<lambda>c. (c_Start c, c_End c)) ?cs)"
    using buildCandidates_filtered_distinct [of id "''MKV''" None "[]" _ _ "replicate 60 False" 50 0]
    by (rule conjunct2)
  with ev show ?thesis
    by simp
qed

subsection \<open>Boundary scorer\<close>

lemma clamp_bounds: "lo \<le> hi \<Longrightarrow> lo \<le> clamp v lo hi \<and> clamp v lo hi \<le> hi"
  by (simp add: clamp_def)

lemma fst_scoreTerm: "fst (scoreTerm cond delta text sr) = fst sr + (if cond then delta else 0)"
  by (simp add: scoreTerm_def)

lemma boundaryScore_terms:
  "fst (boundaryScore pos side ctx) =
     clamp ((if isDisorderTransition pos side (ctx_Disorder ctx) then 30 else 0) +
            (if isDomainBoundary pos (ctx_DomainRanges ctx) then 25 else 0) +
            (if isLoopRegion pos (ctx_PLDDT ctx) then 20 else 0) +
            (if hasStructuredSide pos side (ctx_PLDDT ctx) then 15 else 0) +
            (if matchesPDBBoundary pos (ctx_PDBRanges ctx) then 10 else 0) +
            (if withinRanges pos (ctx_HelixRanges ctx) \<or> withinRanges pos (ctx_StrandRanges ctx)
             then - 50 else 0) +
            (if withinRanges pos (ctx_ActiveSites ctx) then - 100 else 0) +
            (if withinPositions pos (ctx_PTMPositions ctx) 5 then - 20 else 0)) 0 100"
  unfolding boundaryScore_def Let_def fst_conv fst_scoreTerm
  by simp

lemma boundaryScore_range:
  "0 \<le> fst (boundaryScore pos side ctx) \<and> fst (boundaryScore pos side ctx) \<le> 100"
  unfolding boundaryScore_def Let_def fst_conv
  by (rule clamp_bounds) simp

lemma scoreCandidate_Start [simp]: "c_Start (scoreCandidate ctx c) = c_Start c"
  by (simp add: scoreCandidate_def Let_def split: prod.splits)

lemma scoreCandidate_End [simp]: "c_End (scoreCandidate ctx c) = c_End c"
  by (simp add: scoreCandidate_def Let_def split: prod.splits)

lemma scoreCandidate_Score:
  "c_Score (scoreCandidate ctx c) =
     (fst (boundaryScore (c_Start c) ''start'' ctx) + fst (boundaryScore (c_End c) ''end'' ctx)) / 2"
  by (simp add: scoreCandidate_def Let_def split: prod.splits)

lemma mset_insertStable: "mset (insertStable lt x ys) = add_mset x (mset ys)"
  by (induction ys) auto

lemma mset_sort_SliceStable: "mset (sort_SliceStable lt xs) = mset xs"
  by (induction xs) (auto simp: sort_SliceStable_def mset_insertStable)

lemma set_scoreCandidates:
  "set (scoreCandidates candidates ctx minLength maxLength) = scoreCandidate ctx ` set candidates"
proof -
  have "set (scoreCandidates candidates ctx minLength maxLength) =
          set (map (scoreCandidate ctx) candidates)"
    unfolding scoreCandidates_def by (rule mset_eq_setD) (rule mset_sort_SliceStable)
  then show ?thesis by simp
qed

lemma set_top10: "set (top10 scored) \<subseteq> set scored"
  by (auto simp: top10_def dest: in_set_takeD)

lemma scored_candidate:
  assumes "c \<in> set (scoreCandidates candidates ctx minLength maxLength)"
  shows "c_Score c =
           (fst (boundaryScore (c_Start c) ''start'' ctx) +
            fst (boundaryScore (c_End c) ''end'' ctx)) / 2"
proof -
  from assms obtain c0 where "c = scoreCandidate ctx c0"
    by (auto simp: set_scoreCandidates)
  then show ?thesis
    by (simp add: scoreCandidate_Score)
qed

text \<open>
  C1. For every candidate of the final list (the scored candidates, sorted by main and cut
  to the first ten), the score lies in \<open>[0, 100]\<close> and is the average of the score of its
  start boundary and the score of its end boundary; and each boundary score is the sum of
  the signed terms that are triggered, clamped to \<open>[0, 100]\<close> before the averaging.
\<close>

theorem score_range_and_average:
  "sort_Slice_result rankLess (scoreCandidates candidates ctx minLength maxLength) ranked \<Longrightarrow>
   (\<forall>c \<in> set (top10 ranked).
      0 \<le> c_Score c \<and> c_Score c \<le> 100 \<and>
      c_Score c = (fst (boundaryScore (c_Start c) ''start'' ctx) +
                   fst (boundaryScore (c_End c) ''end'' ctx)) / 2) \<and>
   (\<forall>pos side.
      0 \<le> fst (boundaryScore pos side ctx) \<and> fst (boundaryScore pos side ctx) \<le> 100 \<and>
      fst (boundaryScore pos side ctx) =
        clamp ((if isDisorderTransition pos side (ctx_Disorder ctx) then 30 else 0) +
               (if isDomainBoundary pos (ctx_DomainRanges ctx) then 25 else 0) +
               (if isLoopRegion pos (ctx_PLDDT ctx) then 20 else 0) +
               (if hasStructuredSide pos side (ctx_PLDDT ctx) then 15 else 0) +
               (if matchesPDBBoundary pos (ctx_PDBRanges ctx) then 10 else 0) +
               (if withinRanges pos (ctx_HelixRanges ctx) \<or>
                   withinRanges pos (ctx_StrandRanges ctx) then - 50 else 0) +
               (if withinRanges pos (ctx_ActiveSites ctx) then - 100 else 0) +
               (if withinPositions pos (ctx_PTMPositions ctx) 5 then - 20 else 0)) 0 100)"
proof (intro conjI ballI allI)
  assume sorted: "sort_Slice_result rankLess
      (scoreCandidates candidates ctx minLength maxLength) ranked"
  fix c assume "c \<in> set (top10 ranked)"
  then have "c \<in> set ranked"
    using set_top10 by blast
  moreover have "set ranked = set (scoreCandidates candidates ctx minLength maxLength)"
    using sorted by (auto simp: sort_Slice_result_def dest: mset_eq_setD)
  ultimately have avg: "c_Score c =
      (fst (boundaryScore (c_Start c) ''start'' ctx) +
       fst (boundaryScore (c_End c) ''end'' ctx)) / 2"
    by (simp add: scored_candidate)
  from avg show "c_Score c =
      (fst (boundaryScore (c_Start c) ''start'' ctx) +
       fst (boundaryScore (c_End c) ''end'' ctx)) / 2" .
  from avg boundaryScore_range [of "c_Start c" "''start''" ctx]
    boundaryScore_range [of "c_End c" "''end''" ctx]
  show "0 \<le> c_Score c" by simp
  from avg boundaryScore_range [of "c_Start c" "''start''" ctx]
    boundaryScore_range [of "c_End c" "''end''" ctx]
  show "c_Score c \<le> 100" by simp
next
  fix pos side
  show "0 \<le> fst (boundaryScore pos side ctx)" "fst (boundaryScore pos side ctx) \<le> 100"
    using boundaryScore_range by simp_all
  show "fst (boundaryScore pos side ctx) =
        clamp ((if isDisorderTransition pos side (ctx_Disorder ctx) then 30 else 0) +
               (if isDomainBoundary pos (ctx_DomainRanges ctx) then 25 else 0) +
               (if isLoopRegion pos (ctx_PLDDT ctx) then 20 else 0) +
               (if hasStructuredSide pos side (ctx_PLDDT ctx) then 15 else 0) +
               (if matchesPDBBoundary pos (ctx_PDBRanges ctx) then 10 else 0) +
               (if withinRanges pos (ctx_HelixRanges ctx) \<or>
                   withinRanges pos (ctx_StrandRanges ctx) then - 50 else 0) +
               (if withinRanges pos (ctx_ActiveSites ctx) then - 100 else 0) +
               (if withinPositions pos (ctx_PTMPositions ctx) 5 then - 20 else 0)) 0 100"
    by (rule boundaryScore_terms)
qed

theorem score_range_and_average_witness:
  "sort_Slice_result rankLess (scoreCandidates example_candidates example_ctx 50 0)
     (scoreCandidates example_candidates example_ctx 50 0) \<and>
   map (\<lambda>c. (c_Start c, c_End c, c_Score c))
     (top10 (scoreCandidates example_candidates example_ctx 50 0)) = [(1, 60, 65 / 2), (5, 58, 15)] \<and>
   fst (boundaryScore 1 ''start'' example_ctx) = 10 \<and>
   fst (boundaryScore 60 ''end'' example_ctx) = 55 \<and>
   (0::rat) \<le> 65 / 2 \<and> (65::rat) / 2 \<le> 100 \<and> (65::rat) / 2 = (10 + 55) / 2"
proof -
  let ?scored = "scoreCandidates example_candidates example_ctx 50 0"
  have s: "sort_SliceIsSorted rankLess ?scored"
    by code_simp
  have h: "sort_Slice_result rankLess ?scored ?scored"
    using s by (simp add: sort_Slice_result_def)
  have ev: "map (\<lambda>c. (c_Start c, c_End c, c_Score c)) (top10 ?scored) = [(1, 60, 65 / 2), (5, 58, 15)]"
    by code_simp
  have b: "fst (boundaryScore 1 ''start'' example_ctx) = 10"
    "fst (boundaryScore 60 ''end'' example_ctx) = 55"
    by code_simp+
  from score_range_and_average [OF h] h ev b show ?thesis
    by simp
qed

subsection \<open>Ranker\<close>

lemma sort_SliceIsSorted_nth:
  "sort_SliceIsSorted lt ys \<Longrightarrow> Suc i < length ys \<Longrightarrow> \<not> lt (ys ! Suc i) (ys ! i)"
proof (induction lt ys arbitrary: i rule: sort_SliceIsSorted.induct)
  case (3 lt x y ys)
  then show ?case
    by (cases i) auto
qed simp_all

lemma rankLess_not:
  "\<not> rankLess b a \<Longrightarrow>
     c_Score a > c_Score b \<or> (c_Score a = c_Score b \<and> candidate_Length a \<le> candidate_Length b)"
  by (auto simp: rankLess_def split: if_splits)

text \<open>
  The comparison is a strict weak order, as \<open>sort.Slice\<close> requires of it: it is
  irreflexive and transitive, and so is its incomparability.
\<close>

lemma rankLess_strict_weak_order:
  "\<not> rankLess a a"
  "rankLess a b \<Longrightarrow> rankLess b c \<Longrightarrow> rankLess a c"
  "\<not> rankLess a b \<Longrightarrow> \<not> rankLess b c \<Longrightarrow> \<not> rankLess a c"
  by (auto simp: rankLess_def split: if_splits)

text \<open>
  Sorting by insertion gives a result in the sense of \<open>sort.Slice\<close> for such a
  comparison, so every slice has a sorted arrangement.
\<close>

lemma set_insertStable: "set (insertStable lt x ys) = insert x (set ys)"
  by (induction ys) auto

lemma sorted_wrt_insertStable:
  assumes asym: "\<And>a b. lt a b \<Longrightarrow> \<not> lt b a"
    and negtrans: "\<And>a b c. \<not> lt a b \<Longrightarrow> \<not> lt b c \<Longrightarrow> \<not> lt a c"
  shows "sorted_wrt (\<lambda>a b. \<not> lt b a) ys \<Longrightarrow>
         sorted_wrt (\<lambda>a b. \<not> lt b a) (insertStable lt x ys)"
proof (induction ys)
  case Nil
  then show ?case by simp
next
  case (Cons y ys)
  show ?case
  proof (cases "lt y x")
    case True
    with Cons asym show ?thesis
      by (auto simp: set_insertStable)
  next
    case False
    with Cons negtrans show ?thesis
      by auto
  qed
qed

lemma sorted_wrt_SliceIsSorted:
  "sorted_wrt (\<lambda>a b. \<not> lt b a) ys \<Longrightarrow> sort_SliceIsSorted lt ys"
  by (induction lt ys rule: sort_SliceIsSorted.induct) auto

lemma sort_Slice_result_exists: "\<exists>ranked. sort_Slice_result rankLess scored ranked"
proof
  have "sorted_wrt (\<lambda>a b. \<not> rankLess b a) (sort_SliceStable rankLess scored)"
    unfolding sort_SliceStable_def
  proof (induction scored)
    case Nil
    show ?case by simp
  next
    case (Cons c cs)
    have "sorted_wrt (\<lambda>a b. \<not> rankLess b a)
            (insertStable rankLess c (foldr (insertStable rankLess) cs []))"
      using _ _ Cons
    proof (rule sorted_wrt_insertStable)
      show "\<And>a b. rankLess a b \<Longrightarrow> \<not> rankLess b a"
        by (auto simp: rankLess_def split: if_splits)
      show "\<And>a b c. \<not> rankLess a b \<Longrightarrow> \<not> rankLess b c \<Longrightarrow> \<not> rankLess a c"
        by (rule rankLess_strict_weak_order(3))
    qed
    then show ?case by simp
  qed
  then show "sort_Slice_result rankLess scored (sort_SliceStable rankLess scored)"
    by (simp add: sort_Slice_result_def mset_sort_SliceStable sorted_wrt_SliceIsSorted)
qed

lemma top10_nth: "i < length (top10 scored) \<Longrightarrow> top10 scored ! i = scored ! i"
  by (auto simp: top10_def)

lemma length_top10: "length (top10 scored) = min 10 (length scored)"
  by (auto simp: top10_def)

text \<open>
  C6. The final list, the first ten of the scored candidates sorted by main, is sorted by
  score descending with ties broken by ascending length: of two neighbours either the
  first has the strictly greater score, or the scores are equal and the first is not
  longer than the second. At most ten candidates are retained, all of them scored
  candidates.
\<close>

theorem ranking_sorted_top10:
  "sort_Slice_result rankLess scored ranked \<Longrightarrow>
   length (top10 ranked) \<le> 10 \<and>
   length (top10 ranked) = min 10 (length scored) \<and>
   set (top10 ranked) \<subseteq> set scored \<and>
   (\<forall>i. Suc i < length (top10 ranked) \<longrightarrow>
      c_Score (top10 ranked ! i) > c_Score (top10 ranked ! Suc i) \<or>
      (c_Score (top10 ranked ! i) = c_Score (top10 ranked ! Suc i) \<and>
       candidate_Length (top10 ranked ! i) \<le> candidate_Length (top10 ranked ! Suc i)))"
proof (intro conjI allI impI)
  assume r: "sort_Slice_result rankLess scored ranked"
  then have m: "mset ranked = mset scored" and s: "sort_SliceIsSorted rankLess ranked"
    by (simp_all add: sort_Slice_result_def)
  show "length (top10 ranked) \<le> 10"
    by (simp add: length_top10)
  from m have "length ranked = length scored"
    by (rule mset_eq_length)
  then show "length (top10 ranked) = min 10 (length scored)"
    by (simp add: length_top10)
  from m have "set ranked = set scored"
    by (rule mset_eq_setD)
  with set_top10 [of ranked] show "set (top10 ranked) \<subseteq> set scored"
    by simp
  fix i assume i: "Suc i < length (top10 ranked)"
  then have "Suc i < length ranked"
    by (simp add: length_top10)
  with s have "\<not> rankLess (ranked ! Suc i) (ranked ! i)"
    by (rule sort_SliceIsSorted_nth)
  moreover from i have "top10 ranked ! i = ranked ! i" "top10 ranked ! Suc i = ranked ! Suc i"
    by (simp_all add: top10_nth)
  ultimately show "c_Score (top10 ranked ! i) > c_Score (top10 ranked ! Suc i) \<or>
      (c_Score (top10 ranked ! i) = c_Score (top10 ranked ! Suc i) \<and>
       candidate_Length (top10 ranked ! i) \<le> candidate_Length (top10 ranked ! Suc i))"
    using rankLess_not by simp
qed

theorem ranking_sorted_top10_witness:
  "sort_Slice_result rankLess
     [example_candidate 1 9 [] [] \<lparr>c_Score := 40\<rparr>, example_candidate 1 5 [] [] \<lparr>c_Score := 70\<rparr>,
      example_candidate 2 4 [] [] \<lparr>c_Score := 40\<rparr>]
     [example_candidate 1 5 [] [] \<lparr>c_Score := 70\<rparr>, example_candidate 2 4 [] [] \<lparr>c_Score := 40\<rparr>,
      example_candidate 1 9 [] [] \<lparr>c_Score := 40\<rparr>] \<and>
   length (top10
     [example_candidate 1 5 [] [] \<lparr>c_Score := 70\<rparr>, example_candidate 2 4 [] [] \<lparr>c_Score := 40\<rparr>,
      example_candidate 1 9 [] [] \<lparr>c_Score := 40\<rparr>]) = 3 \<and>
   ((70::rat) > 40 \<or> ((70::rat) = 40 \<and> (5::int) \<le> 3)) \<and>
   ((40::rat) > 40 \<or> ((40::rat) = 40 \<and> (3::int) \<le> 9))"
proof -
  let ?a = "example_candidate 1 9 [] [] \<lparr>c_Score := 40\<rparr>"
  let ?b = "example_candidate 1 5 [] [] \<lparr>c_Score := 70\<rparr>"
  let ?c = "example_candidate 2 4 [] [] \<lparr>c_Score := 40\<rparr>"
  have h: "sort_Slice_result rankLess [?a, ?b, ?c] [?b, ?c, ?a]"
    by (simp add: sort_Slice_result_def rankLess_def candidate_Length_def example_candidate_def)
  from ranking_sorted_top10 [OF h] h show ?thesis
    by (simp add: top10_def)
qed

subsection \<open>The minimum length used by main\<close>

lemma candidate_Length_scoreCandidate [simp]:
  "candidate_Length (scoreCandidate ctx c) = candidate_Length c"
  by (simp add: candidate_Length_def)

lemma main_scored_minLength:
  assumes "main_scored toLower fl rs = Inr scored" and "c \<in> set scored"
  shows "(if fl_minLength fl \<le> 0 then defaultMinLength else fl_minLength fl) \<le> candidate_Length c"
proof -
  let ?m = "if fl_minLength fl \<le> 0 then defaultMinLength else fl_minLength fl"
  from assms(1) obtain disordered where
    "scored = scoreCandidates
       (buildCandidates toLower (rs_sequence rs) (rs_regionRange rs) (rs_regionName rs)
          (rs_domains rs) (rs_pdbRanges rs) disordered ?m (fl_maxLength fl))
       \<lparr>ctx_Length = int (length (rs_sequence rs)), ctx_Disorder = disordered,
        ctx_PLDDT = rs_plddt rs, ctx_DomainRanges = rs_domains rs,
        ctx_PDBRanges = rs_pdbRanges rs, ctx_HelixRanges = rs_helixes rs,
        ctx_StrandRanges = rs_strands rs, ctx_ActiveSites = rs_activeSites rs,
        ctx_PTMPositions = rs_ptmPositions rs\<rparr> ?m (fl_maxLength fl)"
    unfolding main_scored_def Let_def
    by (auto split: if_splits sum.splits)
  with assms(2) obtain c0 ctx where c0: "c = scoreCandidate ctx c0"
    "c0 \<in> set (buildCandidates toLower (rs_sequence rs) (rs_regionRange rs) (rs_regionName rs)
          (rs_domains rs) (rs_pdbRanges rs) disordered ?m (fl_maxLength fl))"
    by (auto simp: set_scoreCandidates)
  from buildCandidates_inv [of ?m "fl_maxLength fl" toLower "rs_sequence rs" "rs_regionRange rs"
      "rs_regionName rs" "rs_domains rs" "rs_pdbRanges rs" disordered] c0(2)
  have "candidateOk ?m (fl_maxLength fl) c0"
    by (auto simp: candidatesInv_def)
  then have "?m \<le> candidate_Length c0"
    by (simp add: candidateOk_def candidate_Length_def)
  with c0(1) show ?thesis
    by simp
qed

text \<open>
  C10. When the flag \<open>--min-length\<close> is zero or negative, main replaces it by the default
  100 before the candidates are filtered: the run is the run with minimum length 100, so
  the value neither adds a fatal exit nor is used as the bound, and every candidate that
  reaches the ranking has at least 100 residues.
\<close>

theorem nonpositive_minLength_defaults:
  "fl_minLength fl \<le> 0 \<Longrightarrow>
   main_scored toLower fl rs = main_scored toLower (fl\<lparr>fl_minLength := 100\<rparr>) rs \<and>
   (\<forall>scored. main_scored toLower fl rs = Inr scored \<longrightarrow>
      (\<forall>c \<in> set scored. 100 \<le> candidate_Length c))"
proof (intro conjI allI impI ballI)
  assume neg: "fl_minLength fl \<le> 0"
  show "main_scored toLower fl rs = main_scored toLower (fl\<lparr>fl_minLength := 100\<rparr>) rs"
    using neg by (simp add: main_scored_def defaultMinLength_def)
  fix scored c
  assume "main_scored toLower fl rs = Inr scored" "c \<in> set scored"
  from main_scored_minLength [OF this] neg show "100 \<le> candidate_Length c"
    by (simp add: defaultMinLength_def)
qed

theorem nonpositive_minLength_defaults_witness:
  "fl_minLength example_flags \<le> 0 \<and>
   main_scored id example_flags example_resolved =
     main_scored id (example_flags\<lparr>fl_minLength := 100\<rparr>) example_resolved \<and>
   (case main_scored id example_flags example_resolved of
      Inl f \<Rightarrow> False
    | Inr scored \<Rightarrow>
        map (\<lambda>c. (c_Start c, c_End c, candidate_Length c)) scored = [(1, 120, 120)]) \<and>
   (100::int) \<le> 120"
proof -
  have h: "fl_minLength example_flags \<le> 0"
    by (simp add: example_flags_def)
  have ev: "case main_scored id example_flags example_resolved of
      Inl f \<Rightarrow> False
    | Inr scored \<Rightarrow>
        map (\<lambda>c. (c_Start c, c_End c, candidate_Length c)) scored = [(1, 120, 120)]"
    by code_simp
  from nonpositive_minLength_defaults [OF h, of id example_resolved] h ev show ?thesis
    by simp
qed

subsection \<open>The loop-like region\<close>

lemma avgWindow_clip_lo: "avgWindow values (max_int 0 a) b = avgWindow values a b"
  by (simp add: avgWindow_def max_int_def min_int_def Let_def)

lemma avgWindow_clip_hi:
  "avgWindow values a (min_int (int (length values) - 1) b) = avgWindow values a b"
  by (simp add: avgWindow_def max_int_def min_int_def Let_def)

lemma avgWindow_before: "b < 0 \<Longrightarrow> avgWindow values a b = 0"
  by (simp add: avgWindow_def max_int_def min_int_def Let_def)

lemma avgWindow_after: "int (length values) \<le> a \<Longrightarrow> avgWindow values a b = 0"
  by (simp add: avgWindow_def max_int_def min_int_def Let_def)

text \<open>
  What isLoopRegion computes: its three windows are index windows around the index \<open>pos\<close>,
  which is residue \<open>pos + 1\<close>; the guards in front of them change nothing, since a
  position they exclude has an empty flank.
\<close>

lemma isLoopRegion_shifted: "isLoopRegion pos plddt = loopLikeAt (pos + 1) plddt"
proof (cases "length plddt = 0 \<or> pos \<le> 2 \<or> pos \<ge> int (length plddt) - 2")
  case True
  have "\<not> loopLikeAt (pos + 1) plddt"
  proof -
    consider "length plddt = 0" | "pos \<le> 2" | "pos \<ge> int (length plddt) - 2"
      using True by blast
    then show ?thesis
    proof cases
      case 1
      then have "residueAvg plddt (pos + 1 - 8) (pos + 1 - 3) = 0"
        by (simp add: residueAvg_def avgWindow_def)
      then show ?thesis
        by (simp add: loopLikeAt_def)
    next
      case 2
      have "residueAvg plddt (pos + 1 - 8) (pos + 1 - 3) = 0"
        unfolding residueAvg_def by (rule avgWindow_before) (use 2 in simp)
      then show ?thesis
        by (simp add: loopLikeAt_def)
    next
      case 3
      have "residueAvg plddt (pos + 1 + 3) (pos + 1 + 8) = 0"
        unfolding residueAvg_def by (rule avgWindow_after) (use 3 in simp)
      then show ?thesis
        by (simp add: loopLikeAt_def)
    qed
  qed
  with True show ?thesis
    by (simp add: isLoopRegion_def)
next
  case False
  then show ?thesis
    by (simp add: isLoopRegion_def loopLikeAt_def residueAvg_def Let_def
        avgWindow_clip_lo avgWindow_clip_hi add.commute)
qed

text \<open>
  C7, checked on the code. The confidence array has 20 residues: 90 everywhere, except 65
  at residues 8 to 12 and 100 at residue 13. Around position 10 the window of residues
  8 to 12 averages 65 and both flanks average above 70, so the term is due, and
  isLoopRegion does not award it: it averages the indices 8 to 12, the residues 9 to 13,
  which gives 72. At position 9 it is the other way round.
\<close>

theorem isLoopRegion_window_shifted:
  "loopLikeAt 10 example_plddt \<and> \<not> isLoopRegion 10 example_plddt \<and>
   \<not> loopLikeAt 9 example_plddt \<and> isLoopRegion 9 example_plddt \<and>
   avgWindow example_plddt (10 - 2) (10 + 2) = 72 \<and>
   residueAvg example_plddt (10 - 2) (10 + 2) = 65"
  by (simp add: loopLikeAt_def isLoopRegion_def residueAvg_def avgWindow_def avgLoop.simps
      max_int_def min_int_def example_plddt_def)

subsection \<open>Resilient fetch client\<close>

lemma httpGetLoop_retried:
  "attempt < 3 \<Longrightarrow> retried (client attempt) \<Longrightarrow>
     httpGetLoop client gunzip url attempt lastErr sleeps =
       httpGetLoop client gunzip url (Suc attempt) (Some (attemptError (client attempt)))
         (sleeps @ [attempt + 1])"
  by (subst httpGetLoop.simps) (auto simp: retried_def attemptError_def split: sum.splits)

lemma httpGetLoop_notFound:
  "attempt < 3 \<Longrightarrow> notFound (client attempt) \<Longrightarrow>
     httpGetLoop client gunzip url attempt lastErr sleeps =
       (Inl (Some (ResourceNotFound url)), Suc attempt, sleeps)"
  by (subst httpGetLoop.simps) (auto simp: notFound_def split: sum.splits)

lemma httpGetLoop_exhausted:
  "\<not> attempt < 3 \<Longrightarrow>
     httpGetLoop client gunzip url attempt lastErr sleeps = (Inl lastErr, attempt, sleeps)"
  by (subst httpGetLoop.simps) simp

lemma httpGetLoop_attempts:
  "attempt \<le> 3 \<Longrightarrow> fst (snd (httpGetLoop client gunzip url attempt lastErr sleeps)) \<le> 3"
proof (induction client gunzip url attempt lastErr sleeps rule: httpGetLoop.induct)
  case (1 client gunzip url attempt lastErr sleeps)
  show ?case
  proof (cases "attempt < 3")
    case True
    then have "Suc attempt \<le> 3" by simp
    with True "1.IH" show ?thesis
      by (subst httpGetLoop.simps) (auto split: sum.splits)
  next
    case False
    with "1.prems" show ?thesis
      by (simp add: httpGetLoop_exhausted)
  qed
qed

text \<open>
  C9. For every URL and every behaviour of the network, httpGet calls \<open>client.Get\<close> at
  most 3 times. A response with status 404, after attempts that were all retried, ends it
  at once with the not-found error and no further attempt. When all three attempts fail
  in a way that is retried (a network failure, a status outside 200..299 other than 404,
  a body that cannot be read), httpGet returns the error of the last attempt.
\<close>

theorem httpGet_attempts:
  "fst (snd (httpGet client gunzip url)) \<le> 3 \<and>
   (\<forall>k < 3. (\<forall>j < k. retried (client j)) \<and> notFound (client k) \<longrightarrow>
      httpGet client gunzip url = (Inl (Some (ResourceNotFound url)), Suc k, map Suc [0..<k])) \<and>
   ((\<forall>j < 3. retried (client j)) \<longrightarrow>
      httpGet client gunzip url = (Inl (Some (attemptError (client 2))), 3, [1, 2, 3]))"
proof (intro conjI allI impI)
  show "fst (snd (httpGet client gunzip url)) \<le> 3"
    unfolding httpGet_def by (rule httpGetLoop_attempts) simp
next
  fix k :: nat
  assume k: "k < 3" and h: "(\<forall>j < k. retried (client j)) \<and> notFound (client k)"
  from k consider "k = 0" | "k = 1" | "k = 2"
    by linarith
  then show "httpGet client gunzip url =
      (Inl (Some (ResourceNotFound url)), Suc k, map Suc [0..<k])"
  proof cases
    case 1
    with h show ?thesis
      by (simp add: httpGet_def httpGetLoop_notFound)
  next
    case 2
    with h have "retried (client 0)" "notFound (client (Suc 0))"
      by simp_all
    with 2 show ?thesis
      by (simp add: httpGet_def httpGetLoop_retried httpGetLoop_notFound)
  next
    case 3
    with h have "retried (client 0)" "retried (client (Suc 0))" "notFound (client (Suc (Suc 0)))"
      by (simp_all add: numeral_2_eq_2)
    with 3 show ?thesis
      by (simp add: httpGet_def httpGetLoop_retried httpGetLoop_notFound numeral_2_eq_2 upt_rec)
  qed
next
  assume "\<forall>j < 3. retried (client j)"
  then have "retried (client 0)" "retried (client (Suc 0))" "retried (client (Suc (Suc 0)))"
    by simp_all
  then show "httpGet client gunzip url = (Inl (Some (attemptError (client 2))), 3, [1, 2, 3])"
    by (simp add: httpGet_def httpGetLoop_retried httpGetLoop_exhausted numeral_2_eq_2
        numeral_3_eq_3)
qed

theorem httpGet_attempts_witness:
  "retried (example_client_404 0) \<and> notFound (example_client_404 1) \<and>
   httpGet example_client_404 example_gunzip ''u'' = (Inl (Some (ResourceNotFound ''u'')), 2, [1]) \<and>
   retried (example_client_5xx 0) \<and> retried (example_client_5xx 1) \<and>
   retried (example_client_5xx 2) \<and>
   httpGet example_client_5xx example_gunzip ''u'' = (Inl (Some (HttpStatus 503)), 3, [1, 2, 3])"
proof -
  have a: "\<forall>j < 1. retried (example_client_404 j)" "notFound (example_client_404 1)"
    by (simp_all add: retried_def notFound_def example_client_404_def example_response_def)
  have b: "\<forall>j < 3. retried (example_client_5xx j)"
    by (simp add: retried_def example_client_5xx_def example_response_def)
  have e: "attemptError (example_client_5xx 2) = HttpStatus 503"
    by (simp add: attemptError_def example_client_5xx_def example_response_def)
  note t404 = httpGet_attempts [of example_client_404 example_gunzip "''u''"]
  note t5xx = httpGet_attempts [of example_client_5xx example_gunzip "''u''"]
  have "(\<forall>j < 1. retried (example_client_404 j)) \<and> notFound (example_client_404 1) \<longrightarrow>
      httpGet example_client_404 example_gunzip ''u'' =
        (Inl (Some (ResourceNotFound ''u'')), Suc 1, map Suc [0..<1])"
    using t404 [THEN conjunct2, THEN conjunct1, rule_format, of 1] by simp
  with a have 1: "httpGet example_client_404 example_gunzip ''u'' =
      (Inl (Some (ResourceNotFound ''u'')), 2, [1])"
    by simp
  from t5xx [THEN conjunct2, THEN conjunct2] b e
  have 2: "httpGet example_client_5xx example_gunzip ''u'' =
      (Inl (Some (HttpStatus 503)), 3, [1, 2, 3])"
    by simp
  from 1 2 a b show ?thesis
    by simp
qed

subsection \<open>Result cache\<close>





text \<open>The two payloads differ in the layout only.\<close>

lemma example_stored_layout:
  "filter (\<lambda>c. \<not> json_space c) (string_of example_stored) = string_of example_payload"
  by code_simp




end
